theory Spec2Isabelle
  imports Complex_Main "HOL-Library.Log_Nat"
begin

section \<open>The TTL cache\<close>

text \<open>
  The AniList/Anify routes keep one module-level cache:
  \<^verbatim>\<open>
  const TTL_MS = 5 * 60 * 1000;
  const cache: Record<string, { at: number; data: any }> = {};
  function getCached(key) {
    const entry = cache[key];
    if (!entry) return null;
    if (Date.now() - entry.at > TTL_MS) return null;
    return entry.data;
  }
  function setCached(key, data) { cache[key] = { at: Date.now(), data }; }
  \<close>
  The cache is a map from keys to entries, \<open>Date.now()\<close> is an explicit argument (milliseconds,
  an integer), and \<open>null\<close> is \<open>None\<close>. Keys are compared for equality only, so their type is
  left open. A stored value that is itself \<open>null\<close> cannot be told from a miss in the
  source; the model keeps the two apart (\<open>Some v\<close> against \<open>None\<close>).
\<close>

record 'a cache_entry =
  at_ms :: int
  data :: 'a

type_synonym ('k, 'a) cache = "'k \<rightharpoonup> 'a cache_entry"

definition TTL_MS :: int where
  "TTL_MS = 5 * 60 * 1000"

definition getCached :: "('k, 'a) cache \<Rightarrow> int \<Rightarrow> 'k \<Rightarrow> 'a option" where
  "getCached cache now key =
     (case cache key of
        None \<Rightarrow> None
      | Some entry \<Rightarrow> if now - at_ms entry > TTL_MS then None else Some (data entry))"

definition setCached :: "('k, 'a) cache \<Rightarrow> int \<Rightarrow> 'k \<Rightarrow> 'a \<Rightarrow> ('k, 'a) cache" where
  "setCached cache now key d = cache(key \<mapsto> \<lparr>at_ms = now, data = d\<rparr>)"

text \<open>
  The Jikan routes cache episode payloads in \<open>episodesCache\<close>, read inline by \<open>getEpisodes\<close>:
  \<^verbatim>\<open>
  const EPISODES_TTL_MS = 3 * 60 * 1000;
  const now = Date.now();
  const cached = episodesCache[cacheKey];
  if (cached && now - cached.at < EPISODES_TTL_MS) return res.json(cached.data);
  ...
  episodesCache[cacheKey] = { at: now, data: payload };
  \<close>
  The read is a hit when the age is strictly below the TTL.
\<close>

definition EPISODES_TTL_MS :: int where
  "EPISODES_TTL_MS = 3 * 60 * 1000"

definition episodesCache_get :: "('k, 'a) cache \<Rightarrow> int \<Rightarrow> 'k \<Rightarrow> 'a option" where
  "episodesCache_get cache now key =
     (case cache key of
        None \<Rightarrow> None
      | Some cached \<Rightarrow> if now - at_ms cached < EPISODES_TTL_MS then Some (data cached) else None)"

definition episodesCache_set :: "('k, 'a) cache \<Rightarrow> int \<Rightarrow> 'k \<Rightarrow> 'a \<Rightarrow> ('k, 'a) cache" where
  "episodesCache_set cache now key payload = cache(key \<mapsto> \<lparr>at_ms = now, data = payload\<rparr>)"


section \<open>JavaScript values\<close>

text \<open>
  A JavaScript string is a sequence of UTF-16 code units; a code unit is a natural number here.
  \<open>lit\<close> turns an ASCII literal of the source into code units.
\<close>

type_synonym jsstring = "nat list"

definition lit :: "string \<Rightarrow> jsstring" where
  "lit s = map of_char s"

text \<open>
  A JavaScript number is \<open>NaN\<close>, an infinity or a finite value. A finite binary64 value is a
  rational, and \<open>Fin r\<close> carries it exactly. \<open>-0\<close> is \<open>Fin 0\<close> (the source never tells the
  two zeros apart: both are falsy, and a \<open>Map\<close> treats them as one key).
\<close>

datatype jsnum = NaN | NegInf | Fin rat | PosInf

text \<open>
  The result of an arithmetic operation, and of the conversion of a decimal literal, is the
  exact result rounded to the nearest binary64 value, ties to the even significand.
  \<open>exponent_of x\<close> is the \<open>e\<close> with \<open>2 ^ e \<le> x < 2 ^ (e + 1)\<close> for a positive \<open>x\<close>. The binary64
  values around \<open>x\<close> are the multiples of \<open>2 ^ (e - 52)\<close>, and of \<open>2 ^ -1074\<close> in the
  subnormal range; a result that rounds to \<open>2 ^ 1024\<close> overflows to an infinity.
\<close>

definition round_half_even :: "rat \<Rightarrow> int" where
  "round_half_even y =
     (let f = \<lfloor>y\<rfloor>; d = y - of_int f
      in if d < 1 / 2 then f else if 1 / 2 < d then f + 1 else if even f then f else f + 1)"

definition exponent_of :: "rat \<Rightarrow> int" where
  "exponent_of x = (if 1 \<le> x then bitlen \<lfloor>x\<rfloor> - 1 else - bitlen (\<lceil>1 / x\<rceil> - 1))"

definition round64 :: "rat \<Rightarrow> jsnum" where
  "round64 x =
     (if x = 0 then Fin 0
      else
        let e = max (exponent_of \<bar>x\<bar>) (- 1022);
            q = 2 powi (e - 52);
            v = of_int (round_half_even (\<bar>x\<bar> / q)) * q
        in if 2 powi 1024 \<le> v then (if x < 0 then NegInf else PosInf)
           else Fin (if x < 0 then - v else v))"

text \<open>Rounding the exact result of an operation: only a finite result is rounded.\<close>

fun fl :: "jsnum \<Rightarrow> jsnum" where
  "fl (Fin r) = round64 r"
| "fl a = a"

text \<open>
  The values the routes read from a query string or from a provider's JSON. An object or
  array is seen by this code through \<open>Number(...)\<close> and truthiness, so \<open>JObject n\<close> carries
  what \<open>Number\<close> makes of it; the one place that reads the string of such a value,
  \<open>String(prov?.providerId || "")\<close> in \<open>getStreaming\<close>, has a field of its own (\<open>jp_name\<close>).
\<close>

datatype jsval =
    JUndefined
  | JNull
  | JBool bool
  | JNumber jsnum
  | JString jsstring
  | JObject jsnum

text \<open>\<open>ToBoolean\<close>: what \<open>!v\<close>, \<open>v || d\<close> and \<open>if (v)\<close> test.\<close>

fun truthy_num :: "jsnum \<Rightarrow> bool" where
  "truthy_num NaN = False"
| "truthy_num (Fin r) = (r \<noteq> 0)"
| "truthy_num NegInf = True"
| "truthy_num PosInf = True"

fun truthy :: "jsval \<Rightarrow> bool" where
  "truthy JUndefined = False"
| "truthy JNull = False"
| "truthy (JBool b) = b"
| "truthy (JNumber n) = truthy_num n"
| "truthy (JString s) = (s \<noteq> [])"
| "truthy (JObject n) = True"

definition js_or :: "jsval \<Rightarrow> jsval \<Rightarrow> jsval" where
  "js_or a b = (if truthy a then a else b)"

definition num_or :: "jsnum \<Rightarrow> jsnum \<Rightarrow> jsnum" where
  "num_or a b = (if truthy_num a then a else b)"

subsection \<open>Number(string)\<close>

text \<open>
  \<open>\s\<close> of a regular expression, the characters \<open>trim()\<close> strips and the white space
  \<open>Number\<close> skips are one set: TAB, LF, VT, FF, CR, space, NBSP, U+1680, U+2000 to U+200A,
  U+2028, U+2029, U+202F, U+205F, U+3000 and U+FEFF.
\<close>

definition is_space :: "nat \<Rightarrow> bool" where
  "is_space c \<longleftrightarrow>
     (9 \<le> c \<and> c \<le> 13) \<or> c = 32 \<or> c = 160 \<or> c = 5760 \<or> (8192 \<le> c \<and> c \<le> 8202) \<or>
     c = 8232 \<or> c = 8233 \<or> c = 8239 \<or> c = 8287 \<or> c = 12288 \<or> c = 65279"

definition trim :: "jsstring \<Rightarrow> jsstring" where
  "trim s = rev (dropWhile is_space (rev (dropWhile is_space s)))"

definition is_digit :: "nat \<Rightarrow> bool" where
  "is_digit c \<longleftrightarrow> 48 \<le> c \<and> c \<le> 57"

text \<open>The value of a digit in a base up to 16 (\<open>None\<close> when the code unit is no such digit).\<close>

definition digit_in :: "nat \<Rightarrow> nat \<Rightarrow> nat option" where
  "digit_in base c =
     (let v = (if 48 \<le> c \<and> c \<le> 57 then Some (c - 48)
               else if 97 \<le> c \<and> c \<le> 102 then Some (c - 87)
               else if 65 \<le> c \<and> c \<le> 70 then Some (c - 55)
               else None)
      in case v of None \<Rightarrow> None | Some d \<Rightarrow> if d < base then Some d else None)"

fun digits_value :: "nat \<Rightarrow> nat \<Rightarrow> jsstring \<Rightarrow> nat option" where
  "digits_value base acc [] = Some acc"
| "digits_value base acc (c # cs) =
     (case digit_in base c of
        None \<Rightarrow> None
      | Some d \<Rightarrow> digits_value base (base * acc + d) cs)"

text \<open>One or more digits of the base, and nothing else.\<close>

definition integer_literal :: "nat \<Rightarrow> jsstring \<Rightarrow> nat option" where
  "integer_literal base ds = (if ds = [] then None else digits_value base 0 ds)"

text \<open>\<open>ExponentPart\<close>: \<open>e\<close> or \<open>E\<close>, an optional sign, decimal digits.\<close>

definition exponent_part :: "jsstring \<Rightarrow> int option" where
  "exponent_part s =
     (case s of
        [] \<Rightarrow> Some 0
      | c # r \<Rightarrow>
          if c = 101 \<or> c = 69 then
            (case r of
               [] \<Rightarrow> None
             | sg # ds \<Rightarrow>
                 if sg = 43 then map_option int (integer_literal 10 ds)
                 else if sg = 45 then map_option (\<lambda>n. - int n) (integer_literal 10 ds)
                 else map_option int (integer_literal 10 r))
          else None)"

definition scale10 :: "rat \<Rightarrow> int \<Rightarrow> rat" where
  "scale10 m e = (if 0 \<le> e then m * 10 ^ nat e else m / 10 ^ nat (- e))"

text \<open>
  \<open>StrUnsignedDecimalLiteral\<close>: \<open>Infinity\<close>, or digits with an optional fraction and an
  optional exponent, with a digit before or after the point. The number is the binary64
  value nearest to the decimal value.
\<close>

definition unsigned_decimal :: "jsstring \<Rightarrow> jsnum" where
  "unsigned_decimal s =
     (if s = lit ''Infinity'' then PosInf
      else
        let ip = takeWhile is_digit s;
            r1 = dropWhile is_digit s;
            has_point = (r1 \<noteq> [] \<and> hd r1 = 46);
            fp = (if has_point then takeWhile is_digit (tl r1) else []);
            r2 = (if has_point then dropWhile is_digit (tl r1) else r1)
        in if ip = [] \<and> fp = [] then NaN
           else
             (case (digits_value 10 0 (ip @ fp), exponent_part r2) of
                (Some m, Some e) \<Rightarrow> round64 (scale10 (of_nat m) (e - int (length fp)))
              | _ \<Rightarrow> NaN))"

fun js_neg :: "jsnum \<Rightarrow> jsnum" where
  "js_neg NaN = NaN"
| "js_neg NegInf = PosInf"
| "js_neg (Fin r) = Fin (- r)"
| "js_neg PosInf = NegInf"

text \<open>
  \<open>StringToNumber\<close>: white space is trimmed; the empty string is 0; \<open>0x\<close>, \<open>0o\<close> and \<open>0b\<close>
  literals take no sign; a decimal literal takes an optional sign; anything else is \<open>NaN\<close>.
\<close>

definition StringToNumber :: "jsstring \<Rightarrow> jsnum" where
  "StringToNumber str =
     (let s = trim str in
      if s = [] then Fin 0
      else if 2 < length s \<and> hd s = 48 \<and> hd (tl s) \<in> {120, 88} then
        (case integer_literal 16 (drop 2 s) of Some n \<Rightarrow> round64 (of_nat n) | None \<Rightarrow> NaN)
      else if 2 < length s \<and> hd s = 48 \<and> hd (tl s) \<in> {111, 79} then
        (case integer_literal 8 (drop 2 s) of Some n \<Rightarrow> round64 (of_nat n) | None \<Rightarrow> NaN)
      else if 2 < length s \<and> hd s = 48 \<and> hd (tl s) \<in> {98, 66} then
        (case integer_literal 2 (drop 2 s) of Some n \<Rightarrow> round64 (of_nat n) | None \<Rightarrow> NaN)
      else if hd s = 43 then unsigned_decimal (tl s)
      else if hd s = 45 then js_neg (unsigned_decimal (tl s))
      else unsigned_decimal s)"

text \<open>\<open>Number(v)\<close>.\<close>

fun ToNumber :: "jsval \<Rightarrow> jsnum" where
  "ToNumber JUndefined = NaN"
| "ToNumber JNull = Fin 0"
| "ToNumber (JBool b) = (if b then Fin 1 else Fin 0)"
| "ToNumber (JNumber n) = n"
| "ToNumber (JString s) = StringToNumber s"
| "ToNumber (JObject n) = n"

subsection \<open>Arithmetic and comparison\<close>

text \<open>
  \<open>a < b\<close> on numbers: false when either side is \<open>NaN\<close>. \<open>a > b\<close> is \<open>js_lt b a\<close>.
\<close>

fun js_lt :: "jsnum \<Rightarrow> jsnum \<Rightarrow> bool" where
  "js_lt NaN b = False"
| "js_lt a NaN = False"
| "js_lt PosInf b = False"
| "js_lt a NegInf = False"
| "js_lt NegInf b = True"
| "js_lt a PosInf = True"
| "js_lt (Fin x) (Fin y) = (x < y)"

text \<open>
  \<open>js_add\<close>, \<open>js_sub\<close> and \<open>js_mul\<close> are the exact sum, difference and product; the
  operators \<open>+\<close>, \<open>-\<close> and \<open>*\<close> of JavaScript are these followed by \<open>fl\<close>.
\<close>

fun js_add :: "jsnum \<Rightarrow> jsnum \<Rightarrow> jsnum" where
  "js_add NaN b = NaN"
| "js_add a NaN = NaN"
| "js_add (Fin x) (Fin y) = Fin (x + y)"
| "js_add PosInf NegInf = NaN"
| "js_add NegInf PosInf = NaN"
| "js_add PosInf b = PosInf"
| "js_add NegInf b = NegInf"
| "js_add (Fin x) b = b"

definition js_sub :: "jsnum \<Rightarrow> jsnum \<Rightarrow> jsnum" where
  "js_sub a b = js_add a (js_neg b)"

text \<open>The sign of a number that is not \<open>NaN\<close>, and multiplication by signs.\<close>

fun sign_of :: "jsnum \<Rightarrow> int" where
  "sign_of NaN = 0"
| "sign_of NegInf = - 1"
| "sign_of PosInf = 1"
| "sign_of (Fin r) = (if r < 0 then - 1 else if r = 0 then 0 else 1)"

fun js_mul :: "jsnum \<Rightarrow> jsnum \<Rightarrow> jsnum" where
  "js_mul NaN b = NaN"
| "js_mul a NaN = NaN"
| "js_mul (Fin x) (Fin y) = Fin (x * y)"
| "js_mul a b =
     (if sign_of a * sign_of b = 0 then NaN
      else if sign_of a * sign_of b < 0 then NegInf else PosInf)"

text \<open>\<open>Math.max\<close> and \<open>Math.min\<close> of two numbers: \<open>NaN\<close> when either is.\<close>

definition Math_max :: "jsnum \<Rightarrow> jsnum \<Rightarrow> jsnum" where
  "Math_max a b = (if a = NaN \<or> b = NaN then NaN else if js_lt a b then b else a)"

definition Math_min :: "jsnum \<Rightarrow> jsnum \<Rightarrow> jsnum" where
  "Math_min a b = (if a = NaN \<or> b = NaN then NaN else if js_lt b a then b else a)"

fun Math_ceil :: "jsnum \<Rightarrow> jsnum" where
  "Math_ceil (Fin r) = Fin (of_int \<lceil>r\<rceil>)"
| "Math_ceil a = a"

text \<open>\<open>Number.isInteger\<close>.\<close>

fun is_integer :: "jsnum \<Rightarrow> bool" where
  "is_integer (Fin r) = (of_int \<lfloor>r\<rfloor> = r)"
| "is_integer a = False"


section \<open>The page of an episodes request\<close>

text \<open>
  Both versions of \<open>getEpisodes\<close> start with
  \<^verbatim>\<open>const page = Math.max(1, Number(req.query.page || 1) || 1);\<close>
  where \<open>req.query.page\<close> is \<open>undefined\<close> when the parameter is missing, a string when it
  is given once, and an array or object otherwise.
\<close>

definition episodes_page :: "jsval \<Rightarrow> jsnum" where
  "episodes_page query_page =
     Math_max (Fin 1) (num_or (ToNumber (js_or query_page (JNumber (Fin 1)))) (Fin 1))"


section \<open>The title normalizer\<close>

subsection \<open>Regular expressions\<close>

text \<open>
  The fragment of JavaScript regular expressions that \<open>normalizeBaseTitle\<close> uses, under the
  flag \<open>i\<close> and without the flags \<open>u\<close>, \<open>m\<close> and \<open>s\<close>: a pattern character (compared
  ignoring case), \<open>\s\<close>, \<open>\d\<close>, \<open>.\<close>, \<open>\b\<close>, \<open>$\<close>, sequence, alternative, and the
  greedy quantifiers \<open>*\<close> and \<open>?\<close> (\<open>r+\<close> is \<open>rr*\<close>).
\<close>

datatype regex =
    Chr char
  | Space
  | Digit
  | Dot
  | Boundary
  | End
  | Empty
  | Seq regex regex
  | Alt regex regex
  | Star regex
  | Opt regex

definition Plus :: "regex \<Rightarrow> regex" where
  "Plus r = Seq r (Star r)"

text \<open>The pattern of a literal text, and sequences and alternatives of several patterns.\<close>

fun Str :: "string \<Rightarrow> regex" where
  "Str [] = Empty"
| "Str [c] = Chr c"
| "Str (c # cs) = Seq (Chr c) (Str cs)"

fun seqs :: "regex list \<Rightarrow> regex" where
  "seqs [] = Empty"
| "seqs [r] = r"
| "seqs (r # rs) = Seq r (seqs rs)"

fun alts :: "regex list \<Rightarrow> regex" where
  "alts [] = Empty"
| "alts [r] = r"
| "alts (r # rs) = Alt r (alts rs)"

text \<open>
  With the flag \<open>i\<close> two code units match when their canonical forms agree. The pattern
  characters here are ASCII, and a code unit from 128 on never has an ASCII canonical form,
  so it is enough to fold the ASCII letters.
\<close>

definition fold_case :: "nat \<Rightarrow> nat" where
  "fold_case c = (if 97 \<le> c \<and> c \<le> 122 then c - 32 else c)"

text \<open>\<open>.\<close> matches everything but the line terminators LF, CR, U+2028 and U+2029.\<close>

definition is_line_terminator :: "nat \<Rightarrow> bool" where
  "is_line_terminator c \<longleftrightarrow> c = 10 \<or> c = 13 \<or> c = 8232 \<or> c = 8233"

text \<open>\<open>\w\<close>: the ASCII letters, the digits and the underscore.\<close>

definition is_word_char :: "nat \<Rightarrow> bool" where
  "is_word_char c \<longleftrightarrow>
     (65 \<le> c \<and> c \<le> 90) \<or> (97 \<le> c \<and> c \<le> 122) \<or> (48 \<le> c \<and> c \<le> 57) \<or> c = 95"

text \<open>\<open>\b\<close> at position \<open>i\<close>: exactly one of the code units before and at \<open>i\<close> is a word character.\<close>

definition word_before :: "jsstring \<Rightarrow> nat \<Rightarrow> bool" where
  "word_before s i \<longleftrightarrow> 0 < i \<and> i \<le> length s \<and> is_word_char (s ! (i - 1))"

definition word_at :: "jsstring \<Rightarrow> nat \<Rightarrow> bool" where
  "word_at s i \<longleftrightarrow> i < length s \<and> is_word_char (s ! i)"

text \<open>
  The iterations of a greedy \<open>*\<close>: \<open>step i\<close> lists the positions one more match of the body
  can reach from \<open>i\<close>; an iteration that matches the empty string is not taken. Every
  iteration moves forward, so there are at most as many as the input has code units left;
  the first argument counts them down from the length of the input.
\<close>

fun star_ends :: "nat \<Rightarrow> (nat \<Rightarrow> nat list) \<Rightarrow> nat \<Rightarrow> nat list" where
  "star_ends 0 step i = [i]"
| "star_ends (Suc n) step i =
     concat (map (star_ends n step) (filter (\<lambda>j. i < j) (step i))) @ [i]"

text \<open>
  \<open>match_ends r s i\<close> lists the positions where a match of \<open>r\<close> that starts at position \<open>i\<close>
  of \<open>s\<close> can end, in the order in which backtracking tries them.
\<close>

primrec match_ends :: "regex \<Rightarrow> jsstring \<Rightarrow> nat \<Rightarrow> nat list" where
  "match_ends (Chr c) s i =
     (if i < length s \<and> fold_case (s ! i) = fold_case (of_char c) then [Suc i] else [])"
| "match_ends Space s i = (if i < length s \<and> is_space (s ! i) then [Suc i] else [])"
| "match_ends Digit s i = (if i < length s \<and> is_digit (s ! i) then [Suc i] else [])"
| "match_ends Dot s i = (if i < length s \<and> \<not> is_line_terminator (s ! i) then [Suc i] else [])"
| "match_ends Boundary s i = (if word_before s i \<noteq> word_at s i then [i] else [])"
| "match_ends End s i = (if i = length s then [i] else [])"
| "match_ends Empty s i = [i]"
| "match_ends (Seq a b) s i = concat (map (match_ends b s) (match_ends a s i))"
| "match_ends (Alt a b) s i = match_ends a s i @ match_ends b s i"
| "match_ends (Star a) s i = star_ends (length s) (match_ends a s) i"
| "match_ends (Opt a) s i = match_ends a s i @ [i]"

text \<open>
  \<open>s.replace(r, "")\<close> for a pattern without the flag \<open>g\<close>: the start positions are tried
  from 0 to the length of \<open>s\<close>, and the first match that backtracking finds at the first
  position that has one is removed. \<open>first_match r s i n\<close> tries the positions \<open>i\<close> to
  \<open>i + n\<close> and returns the start and the end of the match.
\<close>

fun first_match :: "regex \<Rightarrow> jsstring \<Rightarrow> nat \<Rightarrow> nat \<Rightarrow> (nat \<times> nat) option" where
  "first_match r s i 0 =
     (case match_ends r s i of [] \<Rightarrow> None | j # _ \<Rightarrow> Some (i, j))"
| "first_match r s i (Suc n) =
     (case match_ends r s i of [] \<Rightarrow> first_match r s (Suc i) n | j # _ \<Rightarrow> Some (i, j))"

definition replace_first :: "regex \<Rightarrow> jsstring \<Rightarrow> jsstring" where
  "replace_first r s =
     (case first_match r s 0 (length s) of
        None \<Rightarrow> s
      | Some (i, j) \<Rightarrow> take i s @ drop j s)"

subsection \<open>normalizeBaseTitle\<close>

text \<open>
  \<^verbatim>\<open>
  function normalizeBaseTitle(title: string) {
    let s = String(title || "").trim();
    s = s.replace(/\s*-\s*(Season|Cour|Part)\s*\d+$/i, "");
    s = s.replace(/\s*\(\s*(Season|Cour|Part)\s*\d+\s*\)$/i, "");
    s = s.replace(/\s*\b(\d+)(st|nd|rd|th)\s+Season\b.*$/i, "");
    s = s.replace(/\s*\bSeason\s+\d+(?:\s*Part\s*\d+)?\b.*$/i, "");
    s = s.replace(/\s*\bFinal Season(?:\s*Part\s*\d+)?\b.*$/i, "");
    s = s.replace(/\s+(?:II|III|IV|V|VI|VII|VIII|IX|X)$/i, "");
    s = s.replace(/\s+\d+$/i, "");
    return s.trim();
  }
  \<close>
  The function is the same in both route files.
\<close>

definition dash_season :: regex where
  "dash_season =
     seqs [Star Space, Chr CHR ''-'', Star Space,
           alts [Str ''Season'', Str ''Cour'', Str ''Part''], Star Space, Plus Digit, End]"

definition paren_season :: regex where
  "paren_season =
     seqs [Star Space, Chr CHR ''('', Star Space,
           alts [Str ''Season'', Str ''Cour'', Str ''Part''], Star Space, Plus Digit,
           Star Space, Chr CHR '')'', End]"

definition nth_season :: regex where
  "nth_season =
     seqs [Star Space, Boundary, Plus Digit,
           alts [Str ''st'', Str ''nd'', Str ''rd'', Str ''th''], Plus Space, Str ''Season'',
           Boundary, Star Dot, End]"

definition season_n :: regex where
  "season_n =
     seqs [Star Space, Boundary, Str ''Season'', Plus Space, Plus Digit,
           Opt (seqs [Star Space, Str ''Part'', Star Space, Plus Digit]),
           Boundary, Star Dot, End]"

definition final_season :: regex where
  "final_season =
     seqs [Star Space, Boundary, Str ''Final Season'',
           Opt (seqs [Star Space, Str ''Part'', Star Space, Plus Digit]),
           Boundary, Star Dot, End]"

definition roman_numeral :: regex where
  "roman_numeral =
     seqs [Plus Space,
           alts [Str ''II'', Str ''III'', Str ''IV'', Str ''V'', Str ''VI'', Str ''VII'',
                 Str ''VIII'', Str ''IX'', Str ''X''], End]"

definition trailing_number :: regex where
  "trailing_number = seqs [Plus Space, Plus Digit, End]"

definition normalizeBaseTitle :: "jsstring \<Rightarrow> jsstring" where
  "normalizeBaseTitle title =
     (let s = trim title;
          s = replace_first dash_season s;
          s = replace_first paren_season s;
          s = replace_first nth_season s;
          s = replace_first season_n s;
          s = replace_first final_season s;
          s = replace_first roman_numeral s;
          s = replace_first trailing_number s
      in trim s)"


section \<open>Upstream requests\<close>

text \<open>
  What the handlers can observe of one \<open>fetch\<close>: the promise rejects (network error, or the
  \<open>AbortController\<close> fired after \<open>timeoutMs\<close>), or it yields a response with a status and a
  body; reading the body with \<open>r.json()\<close> either yields the parsed value or rejects.
  An exception of the source is a value of type \<open>error\<close>.
\<close>

datatype error =
    NetworkError
  | AbortError
  | SyntaxError
  | AniListStatus nat
  | AniListErrors

datatype 'j outcome =
    Rejected error
  | Response nat "error + 'j"

text \<open>\<open>r.ok\<close>: the status is in the range 200 to 299.\<close>

definition is_ok :: "nat \<Rightarrow> bool" where
  "is_ok st \<longleftrightarrow> 200 \<le> st \<and> st \<le> 299"

subsection \<open>fetchJson of the Jikan routes\<close>

text \<open>
  \<^verbatim>\<open>
  async function fetchJson(url, timeoutMs = 8000, retries = 1) {
    const controller = new AbortController();
    const timer = setTimeout(() => controller.abort(), timeoutMs);
    try {
      const r = await fetch(url, { signal: controller.signal });
      if (r.status === 429 && retries > 0) {
        await new Promise((r) => setTimeout(r, 500));
        return fetchJson(url, timeoutMs, retries - 1);
      }
      if (!r.ok) return { ok: false, status: r.status, json: null } as const;
      const j = await r.json();
      return { ok: true, status: r.status, json: j } as const;
    } finally {
      clearTimeout(timer);
    }
  }
  \<close>
  The upstream is the sequence of outcomes of the successive attempts, \<open>up k\<close> being the
  outcome of attempt \<open>k\<close>. There is no \<open>catch\<close>: a rejection leaves the function as an
  exception (\<open>Inl\<close>), after \<open>finally\<close> has cleared the timer.
\<close>

record 'j fetched =
  fetched_ok :: bool
  fetched_status :: nat
  fetched_json :: "'j option"

fun fetchJson :: "(nat \<Rightarrow> 'j outcome) \<Rightarrow> nat \<Rightarrow> nat \<Rightarrow> error + 'j fetched" where
  "fetchJson up k retries =
     (case up k of
        Rejected e \<Rightarrow> Inl e
      | Response st body \<Rightarrow>
          (case (st = 429, retries) of
             (True, Suc r) \<Rightarrow> fetchJson up (Suc k) r
           | _ \<Rightarrow>
               if \<not> is_ok st then
                 Inr \<lparr>fetched_ok = False, fetched_status = st, fetched_json = None\<rparr>
               else
                 (case body of
                    Inl e \<Rightarrow> Inl e
                  | Inr j \<Rightarrow>
                      Inr \<lparr>fetched_ok = True, fetched_status = st, fetched_json = Some j\<rparr>)))"

subsection \<open>fetchJson of the AniList/Anify routes\<close>

text \<open>
  \<^verbatim>\<open>
  async function fetchJson(url, timeoutMs = 8000) {
    const controller = new AbortController();
    const timer = setTimeout(() => controller.abort(), timeoutMs);
    try {
      const r = await fetch(url, { signal: controller.signal });
      if (!r.ok) return null;
      return await r.json();
    } catch {
      return null;
    } finally {
      clearTimeout(timer);
    }
  }
  \<close>
  \<open>None\<close> is \<open>null\<close>.
\<close>

definition fetchJson_anify :: "'j outcome \<Rightarrow> 'j option" where
  "fetchJson_anify up =
     (case up of
        Rejected e \<Rightarrow> None
      | Response st body \<Rightarrow>
          if \<not> is_ok st then None
          else (case body of Inl e \<Rightarrow> None | Inr j \<Rightarrow> Some j))"


declare fetchJson.simps [simp del]


section \<open>Season chains of the Jikan routes\<close>

text \<open>
  The full record of an anime as \<open>/anime/{id}/full\<close> returns it, with the fields the chain
  builder reads: \<open>mal_id\<close>, the three titles, and \<open>relations\<close>, a list of groups
  \<open>{relation, entry: [{mal_id, type, name}]}\<close>. A field that is missing or not an array is
  \<open>None\<close>. The elements of the arrays are objects.
\<close>

record rel_entry =
  entry_mal_id :: int
  entry_type :: jsval
  entry_name :: jsval

record relation =
  rel_relation :: jsval
  rel_entry :: "rel_entry list option"

record jikan_anime =
  mal_id :: int
  title :: jsval
  title_english :: jsval
  title_japanese :: jsval
  relations :: "relation list option"

text \<open>
  \<^verbatim>\<open>
  async function fetchByMal(malId) {
    const r = await fetch(`${JIKAN_BASE}/anime/${malId}/full`);
    if (!r.ok) return null;
    const json = await r.json();
    return json.data ?? null;
  }
  \<close>
  \<open>jikan malId\<close> is the outcome of the request for \<open>malId\<close>; the parsed body is its \<open>data\<close>
  field (\<open>None\<close> when null or missing).
\<close>

type_synonym jikan = "int \<Rightarrow> jikan_anime option outcome"

definition fetchByMal :: "jikan \<Rightarrow> int \<Rightarrow> error + jikan_anime option" where
  "fetchByMal jikan malId =
     (case jikan malId of
        Rejected e \<Rightarrow> Inl e
      | Response st body \<Rightarrow>
          if \<not> is_ok st then Inr None
          else (case body of Inl e \<Rightarrow> Inl e | Inr d \<Rightarrow> Inr d))"

text \<open>
  \<^verbatim>\<open>
  function pickRelation(rel) {
    if (!rel || !Array.isArray(rel.entry)) return null;
    const tv = rel.entry.find((x) => x.type === "TV");
    const chosen = tv || rel.entry[0];
    return chosen ? { id: chosen.mal_id, title: chosen.name } : null;
  }
  \<close>
\<close>

record picked =
  picked_id :: int
  picked_title :: jsval

definition pickRelation :: "relation option \<Rightarrow> picked option" where
  "pickRelation rel =
     (case rel of
        None \<Rightarrow> None
      | Some r \<Rightarrow>
          (case rel_entry r of
             None \<Rightarrow> None
           | Some entries \<Rightarrow>
               let tv = find (\<lambda>x. entry_type x = JString (lit ''TV'')) entries;
                   chosen = (case tv of Some x \<Rightarrow> Some x
                             | None \<Rightarrow> (case entries of [] \<Rightarrow> None | x # _ \<Rightarrow> Some x))
               in (case chosen of
                     None \<Rightarrow> None
                   | Some c \<Rightarrow> Some \<lparr>picked_id = entry_mal_id c, picked_title = entry_name c\<rparr>)))"

text \<open>\<open>node.relations?.find?.((r) => r.relation === name)\<close>\<close>

definition find_relation :: "jikan_anime \<Rightarrow> string \<Rightarrow> relation option" where
  "find_relation node name =
     (case relations node of
        None \<Rightarrow> None
      | Some rs \<Rightarrow> find (\<lambda>r. rel_relation r = JString (lit name)) rs)"

text \<open>\<open>x.title || x.title_english || x.title_japanese\<close>\<close>

definition title_of :: "jikan_anime \<Rightarrow> jsval" where
  "title_of x = js_or (js_or (title x) (title_english x)) (title_japanese x)"

text \<open>
  \<^verbatim>\<open>
  async function buildSeasonsChain(startData) {
    const seen = new Set<number>();
    const titles: Record<number, string> = {};
    let current = startData;
    let currentId = Number(current.mal_id);
    titles[currentId] = current.title || current.title_english || current.title_japanese;
    const back: number[] = [];
    let node = current;
    for (let i = 0; i < 8; i++) {
      const preRel = node.relations?.find?.((r) => r.relation === "Prequel");
      const pre = pickRelation(preRel);
      if (!pre || seen.has(pre.id)) break;
      seen.add(pre.id);
      back.push(pre.id);
      const full = await fetchByMal(String(pre.id));
      if (!full) break;
      titles[pre.id] = full.title || full.title_english || full.title_japanese;
      node = full;
    }
    const chain: number[] = [...back.reverse(), currentId];
    node = current;
    for (let i = 0; i < 8; i++) {
      const seqRel = node.relations?.find?.((r) => r.relation === "Sequel");
      const seq = pickRelation(seqRel);
      if (!seq || seen.has(seq.id)) break;
      seen.add(seq.id);
      const full = await fetchByMal(String(seq.id));
      if (!full) break;
      titles[seq.id] = full.title || full.title_english || full.title_japanese;
      chain.push(seq.id);
      node = full;
    }
    return { ids: chain, titles };
  }
  \<close>
  The variables the loops update are the fields of \<open>walk\<close>; \<open>ids\<close> is \<open>back\<close> in the first
  loop and \<open>chain\<close> in the second. Each loop is a function of the iterations left (8 at the
  start) and of \<open>node\<close>; \<open>break\<close> returns the state. An exception of \<open>fetchByMal\<close> ends
  the whole function (\<open>Inl\<close>).
\<close>

record walk =
  seen :: "int set"
  titles :: "int \<rightharpoonup> jsval"
  ids :: "int list"

fun walk_back :: "jikan \<Rightarrow> nat \<Rightarrow> jikan_anime \<Rightarrow> walk \<Rightarrow> error + walk" where
  "walk_back jikan 0 node w = Inr w"
| "walk_back jikan (Suc n) node w =
     (case pickRelation (find_relation node ''Prequel'') of
        None \<Rightarrow> Inr w
      | Some pre \<Rightarrow>
          if picked_id pre \<in> seen w then Inr w
          else
            let w1 = w\<lparr>seen := insert (picked_id pre) (seen w), ids := ids w @ [picked_id pre]\<rparr>
            in (case fetchByMal jikan (picked_id pre) of
                  Inl e \<Rightarrow> Inl e
                | Inr None \<Rightarrow> Inr w1
                | Inr (Some full) \<Rightarrow>
                    walk_back jikan n full
                      (w1\<lparr>titles := (titles w1)(picked_id pre \<mapsto> title_of full)\<rparr>)))"

fun walk_forward :: "jikan \<Rightarrow> nat \<Rightarrow> jikan_anime \<Rightarrow> walk \<Rightarrow> error + walk" where
  "walk_forward jikan 0 node w = Inr w"
| "walk_forward jikan (Suc n) node w =
     (case pickRelation (find_relation node ''Sequel'') of
        None \<Rightarrow> Inr w
      | Some seq \<Rightarrow>
          if picked_id seq \<in> seen w then Inr w
          else
            let w1 = w\<lparr>seen := insert (picked_id seq) (seen w)\<rparr>
            in (case fetchByMal jikan (picked_id seq) of
                  Inl e \<Rightarrow> Inl e
                | Inr None \<Rightarrow> Inr w1
                | Inr (Some full) \<Rightarrow>
                    walk_forward jikan n full
                      (w1\<lparr>titles := (titles w1)(picked_id seq \<mapsto> title_of full),
                          ids := ids w1 @ [picked_id seq]\<rparr>)))"

record seasons_chain =
  chain_ids :: "int list"
  chain_titles :: "int \<rightharpoonup> jsval"

definition buildSeasonsChain :: "jikan \<Rightarrow> jikan_anime \<Rightarrow> error + seasons_chain" where
  "buildSeasonsChain jikan startData =
     (let currentId = mal_id startData;
          w0 = \<lparr>seen = {}, titles = [currentId \<mapsto> title_of startData], ids = []\<rparr>
      in case walk_back jikan 8 startData w0 of
           Inl e \<Rightarrow> Inl e
         | Inr wb \<Rightarrow>
             (case walk_forward jikan 8 startData (wb\<lparr>ids := rev (ids wb) @ [currentId]\<rparr>) of
                Inl e \<Rightarrow> Inl e
              | Inr wfw \<Rightarrow> Inr \<lparr>chain_ids = ids wfw, chain_titles = titles wfw\<rparr>))"


section \<open>Season chains of the AniList routes\<close>

text \<open>
  A media node as a relation edge carries it (\<open>id idMal format title{userPreferred}\<close>), and a
  media record with its relation edges, as \<open>fetchWithRelations\<close> returns it. A missing or
  null field is \<open>None\<close>; an edge that is null has no \<open>relationType\<close>, so it is an edge whose
  type matches nothing.
\<close>

record media_node =
  node_id :: int
  node_idMal :: "int option"
  node_format :: "jsstring option"
  node_title :: "jsstring option"

record edge =
  relationType :: jsval
  edge_node :: "media_node option"

record media =
  media_core :: media_node
  relations_edges :: "edge list option"

text \<open>
  \<^verbatim>\<open>
  function pickEdge(edges, type) {
    const list = Array.isArray(edges) ? edges : [];
    const candidates = list.filter((e) => e?.relationType === type).map((e) => e.node);
    const tv = candidates.find((n) => n?.format === "TV" || n?.format === "ONA");
    return tv || candidates[0] || null;
  }
  \<close>
\<close>

definition pickEdge :: "edge list option \<Rightarrow> string \<Rightarrow> media_node option" where
  "pickEdge edges type =
     (let list = (case edges of Some es \<Rightarrow> es | None \<Rightarrow> []);
          candidates = map edge_node (filter (\<lambda>e. relationType e = JString (lit type)) list);
          tv = find (\<lambda>n. case n of
                            None \<Rightarrow> False
                          | Some m \<Rightarrow> node_format m = Some (lit ''TV'')
                                    \<or> node_format m = Some (lit ''ONA'')) candidates
      in case tv of
           Some (Some m) \<Rightarrow> Some m
         | _ \<Rightarrow> (case candidates of [] \<Rightarrow> None | c # _ \<Rightarrow> c))"

text \<open>
  \<open>fetchWithRelations(id)\<close> asks AniList through \<open>gql\<close> and returns \<open>d?.Media ?? null\<close>; an
  exception of \<open>gql\<close> passes through it. \<open>anilist id\<close> is what the call for \<open>id\<close> does.
  The chain of \<open>getInfo\<close>:
  \<^verbatim>\<open>
  const seen = new Set<number>([start.id]);
  const back: any[] = [];
  let node = start;
  for (let i = 0; i < 3; i++) {
    const prev = pickEdge(node.relations?.edges, "PREQUEL");
    if (!prev || seen.has(prev.id)) break;
    seen.add(prev.id);
    back.push(prev);
    node = await fetchWithRelations(prev.id);
    if (!node) break;
  }
  const chain = [...back.reverse(), start];
  node = start;
  for (let i = 0; i < 3; i++) {
    const next = pickEdge(node.relations?.edges, "SEQUEL");
    if (!next || seen.has(next.id)) break;
    seen.add(next.id);
    chain.push(next);
    node = await fetchWithRelations(next.id);
    if (!node) break;
  }
  \<close>
  The two loops differ in the relation type only, so one function serves both; it appends
  the accepted node to the list it is given.
\<close>

type_synonym anilist = "int \<Rightarrow> error + media option"

record info_walk =
  info_seen :: "int set"
  info_nodes :: "media_node list"

fun info_walk_loop :: "anilist \<Rightarrow> string \<Rightarrow> nat \<Rightarrow> media \<Rightarrow> info_walk \<Rightarrow> error + info_walk" where
  "info_walk_loop anilist type 0 node w = Inr w"
| "info_walk_loop anilist type (Suc n) node w =
     (case pickEdge (relations_edges node) type of
        None \<Rightarrow> Inr w
      | Some nxt \<Rightarrow>
          if node_id nxt \<in> info_seen w then Inr w
          else
            let w1 = \<lparr>info_seen = insert (node_id nxt) (info_seen w),
                      info_nodes = info_nodes w @ [nxt]\<rparr>
            in (case anilist (node_id nxt) of
                  Inl e \<Rightarrow> Inl e
                | Inr None \<Rightarrow> Inr w1
                | Inr (Some full) \<Rightarrow> info_walk_loop anilist type n full w1))"

definition info_chain :: "anilist \<Rightarrow> media \<Rightarrow> error + media_node list" where
  "info_chain anilist start =
     (case info_walk_loop anilist ''PREQUEL'' 3 start
             \<lparr>info_seen = {node_id (media_core start)}, info_nodes = []\<rparr> of
        Inl e \<Rightarrow> Inl e
      | Inr wb \<Rightarrow>
          (case info_walk_loop anilist ''SEQUEL'' 3 start
                  \<lparr>info_seen = info_seen wb,
                    info_nodes = rev (info_nodes wb) @ [media_core start]\<rparr> of
             Inl e \<Rightarrow> Inl e
           | Inr wfw \<Rightarrow> Inr (info_nodes wfw)))"


section \<open>Queries to AniList\<close>

text \<open>
  \<^verbatim>\<open>
  async function gql(query, variables) {
    const body = JSON.stringify({ query, variables });
    const key = `gql:${Buffer.from(query).toString("base64")}::${JSON.stringify(variables)}`;
    const cached = getCached(key);
    if (cached) return cached;
    const r = await fetch(ANILIST_ENDPOINT, { method: "POST", headers: ..., body });
    if (!r.ok) throw new Error(`AniList error: ${r.status}`);
    const j = await r.json();
    if (j.errors) throw new Error(`AniList error: ${JSON.stringify(j.errors)}`);
    setCached(key, j.data);
    return j.data;
  }
  \<close>
  The parsed body \<open>j\<close> has \<open>errors\<close> (here: whether it is truthy) and \<open>data\<close>, an object or
  null (\<open>None\<close>). The function reads the clock twice, at \<open>now\<close> in \<open>getCached\<close> and at
  \<open>now'\<close> in \<open>setCached\<close>. It returns its result, a value or an exception, and the cache.
\<close>

record 'd gql_body =
  body_errors :: bool
  body_data :: "'d option"

definition gql ::
  "('k, 'd option) cache \<Rightarrow> int \<Rightarrow> int \<Rightarrow> 'k \<Rightarrow> 'd gql_body outcome
     \<Rightarrow> (error + 'd option) \<times> ('k, 'd option) cache" where
  "gql cache now now' key up =
     (case getCached cache now key of
        Some (Some cached) \<Rightarrow> (Inr (Some cached), cache)
      | _ \<Rightarrow>
          (case up of
             Rejected e \<Rightarrow> (Inl e, cache)
           | Response st body \<Rightarrow>
               if \<not> is_ok st then (Inl (AniListStatus st), cache)
               else
                 (case body of
                    Inl e \<Rightarrow> (Inl e, cache)
                  | Inr j \<Rightarrow>
                      if body_errors j then (Inl AniListErrors, cache)
                      else (Inr (body_data j), setCached cache now' key (body_data j)))))"

text \<open>
  \<open>mapAnilistToSummary\<close> builds a summary from a media record. Of its fields the model keeps
  \<open>id: m?.idMal || m?.id\<close>, \<open>title: normalizeBaseTitle(title)\<close> with
  \<open>title = m?.title?.userPreferred || ... || ""\<close>, and \<open>type: m?.format || undefined\<close>; the
  other fields (image, year, rating, genres, synopsis) are read with \<open>?.\<close> and defaulted in
  the same way and cannot raise.
\<close>

record summary =
  summary_id :: int
  summary_title :: jsstring
  summary_type :: "jsstring option"

definition idMal_or_id :: "media_node \<Rightarrow> int" where
  "idMal_or_id m = (case node_idMal m of Some k \<Rightarrow> if k \<noteq> 0 then k else node_id m
                    | None \<Rightarrow> node_id m)"

definition mapAnilistToSummary :: "media_node \<Rightarrow> summary" where
  "mapAnilistToSummary m =
     \<lparr>summary_id = idMal_or_id m,
      summary_title = normalizeBaseTitle (case node_title m of Some t \<Rightarrow> t | None \<Rightarrow> []),
      summary_type = (case node_format m of Some f \<Rightarrow> if f \<noteq> [] then Some f else None
                      | None \<Rightarrow> None)\<rparr>"

text \<open>
  \<^verbatim>\<open>
  export const getTrending: RequestHandler = async (_req, res) => {
    try {
      const data = await gql(`query($perPage:Int){ Page(perPage:$perPage){ media(...){...} } }`,
                             { perPage: 24 });
      const results = (data?.Page?.media || [])
        .filter((m: any) => m?.idMal || m?.id)
        .map(mapAnilistToSummary);
      res.json({ results });
    } catch (e: any) {
      res.status(500).json({ error: e?.message || "Failed to fetch trending" });
    }
  };
  \<close>
  The data \<open>d\<close> is the \<open>media\<close> array of the page (\<open>None\<close> when \<open>Page\<close> or \<open>media\<close> is missing), whose
  elements are media records or null. The answer is a status and a body, \<open>{results}\<close> or
  \<open>{error}\<close>; the error message is kept as the exception it was made from.
\<close>

type_synonym page_data = "media_node option list option"

datatype response_body =
    Results "summary list"
  | ErrorBody error

record http_response =
  response_status :: nat
  response_body :: response_body

definition getTrending ::
  "('k, page_data option) cache \<Rightarrow> int \<Rightarrow> int \<Rightarrow> 'k \<Rightarrow> page_data gql_body outcome
     \<Rightarrow> http_response \<times> ('k, page_data option) cache" where
  "getTrending cache now now' key up =
     (case gql cache now now' key up of
        (Inl e, cache') \<Rightarrow> (\<lparr>response_status = 500, response_body = ErrorBody e\<rparr>, cache')
      | (Inr d, cache') \<Rightarrow>
          let media = (case d of Some (Some ms) \<Rightarrow> ms | _ \<Rightarrow> []);
              results =
                map mapAnilistToSummary
                  (filter (\<lambda>m. idMal_or_id m \<noteq> 0)
                     (concat (map (\<lambda>m. case m of Some x \<Rightarrow> [x] | None \<Rightarrow> []) media)))
          in (\<lparr>response_status = 200, response_body = Results results\<rparr>, cache'))"


section \<open>The episode reconciler\<close>

text \<open>
  \<open>Array.prototype.sort(cmp)\<close> is stable. It is modelled as the insertion sort that puts
  an element behind those it compares greater than (\<open>cmp x y > 0\<close>); for a comparator that is
  consistent on the elements, as both comparators of \<open>getEpisodes\<close> are on the arrays they
  sort, every stable sort returns this list.
\<close>

fun sort_insert :: "('a \<Rightarrow> 'a \<Rightarrow> jsnum) \<Rightarrow> 'a \<Rightarrow> 'a list \<Rightarrow> 'a list" where
  "sort_insert cmp x [] = [x]"
| "sort_insert cmp x (y # ys) =
     (if js_lt (Fin 0) (cmp x y) then y # sort_insert cmp x ys else x # y # ys)"

definition Array_sort :: "('a \<Rightarrow> 'a \<Rightarrow> jsnum) \<Rightarrow> 'a list \<Rightarrow> 'a list" where
  "Array_sort cmp xs = foldr (sort_insert cmp) xs []"

text \<open>
  \<open>xs.indexOf(v)\<close> on an array of string literals: the first index whose element is strictly
  equal to \<open>v\<close>, and -1 when there is none.
\<close>

fun indexOf_from :: "string list \<Rightarrow> jsval \<Rightarrow> int \<Rightarrow> int" where
  "indexOf_from [] v i = - 1"
| "indexOf_from (x # xs) v i = (if JString (lit x) = v then i else indexOf_from xs v (i + 1))"

definition indexOf :: "string list \<Rightarrow> jsval \<Rightarrow> int" where
  "indexOf xs v = indexOf_from xs v 0"

text \<open>
  A JavaScript \<open>Map\<close> keeps its entries in insertion order: a list of pairs with distinct
  keys. \<open>set\<close> on a key that is present replaces the value in place.
\<close>

definition map_has :: "('k \<times> 'v) list \<Rightarrow> 'k \<Rightarrow> bool" where
  "map_has m k \<longleftrightarrow> k \<in> set (map fst m)"

fun map_set :: "('k \<times> 'v) list \<Rightarrow> 'k \<Rightarrow> 'v \<Rightarrow> ('k \<times> 'v) list" where
  "map_set [] k v = [(k, v)]"
| "map_set (e # m) k v = (if fst e = k then (k, v) # m else e # map_set m k v)"

definition map_values :: "('k \<times> 'v) list \<Rightarrow> 'v list" where
  "map_values m = map snd m"

text \<open>
  What Anify returns for an anime is an array of providers, each with a \<open>providerId\<close> and
  an array of episodes; the reconciler reads \<open>number\<close>, \<open>id\<close> and \<open>title\<close> of an episode.
  A provider that is null, or whose \<open>episodes\<close> is not an array, has \<open>episodes = None\<close>.
  \<^verbatim>\<open>
  const providers: any[] = Array.isArray(data) ? data : [];
  const preferred = ["gogoanime", "zoro", "aniwatch", "animepahe", "9anime", "aniwave"];
  const sorted = providers.sort((a, b) =>
    preferred.indexOf(a?.providerId) - preferred.indexOf(b?.providerId));

  const map: Map<number, { id: string; number: number; title?: string }> = new Map();
  for (const prov of sorted) {
    const eps = Array.isArray(prov?.episodes) ? prov.episodes : [];
    for (const ep of eps) {
      const num = typeof ep.number === "number" ? ep.number : Number(ep.number) || 0;
      if (!num || map.has(num)) continue;
      map.set(num, {
        id: String(ep.id ?? `${ids.id}-${num}`),
        number: num,
        title: ep.title || undefined,
      });
    }
  }

  const list = Array.from(map.values()).sort((a, b) => a.number - b.number);
  \<close>
  The \<open>id\<close> of a record is a string made by \<open>String(...)\<close> from the provider's id, or from
  the template when that id is null or undefined; the model keeps what the string is made
  from.
\<close>

record raw_episode =
  ep_number :: jsval
  ep_id :: jsval
  ep_title :: jsval

record provider =
  providerId :: jsval
  episodes :: "raw_episode list option"

datatype episode_id =
    StringOf jsval
  | Template jsval jsnum

record episode =
  e_id :: episode_id
  e_number :: jsnum
  e_title :: jsval

definition preferred :: "string list" where
  "preferred = [''gogoanime'', ''zoro'', ''aniwatch'', ''animepahe'', ''9anime'', ''aniwave'']"

definition by_preference :: "provider \<Rightarrow> provider \<Rightarrow> jsnum" where
  "by_preference a b =
     Fin (of_int (indexOf preferred (providerId a) - indexOf preferred (providerId b)))"

text \<open>
  Of the result of \<open>a.number - b.number\<close> the sort reads the sign only. The rounded
  difference of two binary64 values has the sign of the exact difference (it is zero only
  when they are equal), so the comparator is the exact difference.
\<close>

definition by_number :: "episode \<Rightarrow> episode \<Rightarrow> jsnum" where
  "by_number a b = js_sub (e_number a) (e_number b)"

definition episode_num :: "raw_episode \<Rightarrow> jsnum" where
  "episode_num ep =
     (case ep_number ep of
        JNumber n \<Rightarrow> n
      | v \<Rightarrow> num_or (ToNumber v) (Fin 0))"

definition episode_record :: "jsval \<Rightarrow> raw_episode \<Rightarrow> jsnum \<Rightarrow> episode" where
  "episode_record ids_id ep num =
     \<lparr>e_id = (if ep_id ep = JUndefined \<or> ep_id ep = JNull then Template ids_id num
              else StringOf (ep_id ep)),
      e_number = num,
      e_title = js_or (ep_title ep) JUndefined\<rparr>"

fun add_episodes ::
  "jsval \<Rightarrow> raw_episode list \<Rightarrow> (jsnum \<times> episode) list \<Rightarrow> (jsnum \<times> episode) list" where
  "add_episodes ids_id [] m = m"
| "add_episodes ids_id (ep # eps) m =
     (let num = episode_num ep in
      if \<not> truthy_num num \<or> map_has m num then add_episodes ids_id eps m
      else add_episodes ids_id eps (map_set m num (episode_record ids_id ep num)))"

fun add_providers ::
  "jsval \<Rightarrow> provider list \<Rightarrow> (jsnum \<times> episode) list \<Rightarrow> (jsnum \<times> episode) list" where
  "add_providers ids_id [] m = m"
| "add_providers ids_id (prov # provs) m =
     (let eps = (case episodes prov of Some es \<Rightarrow> es | None \<Rightarrow> [])
      in add_providers ids_id provs (add_episodes ids_id eps m))"

definition reconcile :: "jsval \<Rightarrow> provider list \<Rightarrow> episode list" where
  "reconcile ids_id providers =
     (let sorted = Array_sort by_preference providers;
          m = add_providers ids_id sorted []
      in Array_sort by_number (map_values m))"

subsection \<open>Pagination\<close>

text \<open>
  \<open>xs.slice(start, end)\<close>: each bound is truncated to an integer (\<open>NaN\<close> to 0), a negative
  bound counts from the end, and both are clamped to the length.
\<close>

definition slice_index :: "nat \<Rightarrow> jsnum \<Rightarrow> nat" where
  "slice_index len b =
     (case b of
        NaN \<Rightarrow> 0
      | NegInf \<Rightarrow> 0
      | PosInf \<Rightarrow> len
      | Fin r \<Rightarrow>
          let t = (if r < 0 then \<lceil>r\<rceil> else \<lfloor>r\<rfloor>)
          in if t < 0 then nat (max (int len + t) 0) else min (nat t) len)"

definition Array_slice :: "'a list \<Rightarrow> jsnum \<Rightarrow> jsnum \<Rightarrow> 'a list" where
  "Array_slice xs start end =
     (let k = slice_index (length xs) start;
          final = slice_index (length xs) end
      in take (final - k) (drop k xs))"

text \<open>
  \<^verbatim>\<open>
  const perPage = 24;
  ...
  const total = list.length;
  const start = (page - 1) * perPage;
  const paged = list.slice(start, start + perPage);
  const pagination = {
    page,
    has_next_page: total > page * perPage,
    last_visible_page: Math.max(1, Math.ceil(total / perPage)),
    items: { count: Math.min(perPage, Math.max(0, total - start)), total, per_page: perPage },
  };
  return res.json({ episodes: paged, pagination });
  \<close>
  \<open>total / perPage\<close> divides a length by 24, two finite numbers; the length of an array is
  an integer below \<open>2 ^ 32\<close> and so a binary64 value. Every operation rounds its exact
  result (\<open>fl\<close>).
\<close>

definition perPage :: nat where
  "perPage = 24"

record pagination =
  page :: jsnum
  has_next_page :: bool
  last_visible_page :: jsnum
  items_count :: jsnum
  items_total :: nat
  items_per_page :: nat

record episodes_payload =
  payload_episodes :: "episode list"
  payload_pagination :: pagination

definition paginate :: "jsnum \<Rightarrow> episode list \<Rightarrow> episodes_payload" where
  "paginate pg list =
     (let total' = length list;
          start = fl (js_mul (fl (js_sub pg (Fin 1))) (Fin (of_nat perPage)));
          paged = Array_slice list start (fl (js_add start (Fin (of_nat perPage))))
      in \<lparr>payload_episodes = paged,
          payload_pagination =
            \<lparr>page = pg,
             has_next_page =
               js_lt (fl (js_mul pg (Fin (of_nat perPage)))) (Fin (of_nat total')),
             last_visible_page =
               Math_max (Fin 1) (Math_ceil (fl (Fin (of_nat total' / of_nat perPage)))),
             items_count =
               Math_min (Fin (of_nat perPage))
                 (Math_max (Fin 0) (fl (js_sub (Fin (of_nat total')) start))),
             items_total = total',
             items_per_page = perPage\<rparr>\<rparr>)"

text \<open>
  The part of \<open>getEpisodes\<close> (AniList/Anify routes) from the provider array to the payload:
  \<open>query_page\<close> is \<open>req.query.page\<close>, \<open>ids_id\<close> the AniList id, \<open>providers\<close> the array
  Anify returned.
\<close>

definition getEpisodes_payload :: "jsval \<Rightarrow> jsval \<Rightarrow> provider list \<Rightarrow> episodes_payload" where
  "getEpisodes_payload query_page ids_id providers =
     paginate (episodes_page query_page) (reconcile ids_id providers)"

text \<open>
  The pagination the Jikan routes build for the episodes of a streaming provider
  (\<open>arr.length > 0\<close> is tested before):
  \<^verbatim>\<open>
  const perPage = 24;
  const total = arr.length;
  const pagination = {
    page,
    has_next_page: total > page * perPage,
    last_visible_page: Math.max(1, Math.ceil(total / perPage)),
    items: { count: Math.min(perPage, total - (page - 1) * perPage), total, per_page: perPage },
  };
  \<close>
\<close>

definition fallback_pagination :: "jsnum \<Rightarrow> nat \<Rightarrow> pagination" where
  "fallback_pagination pg total' =
     \<lparr>page = pg,
      has_next_page = js_lt (fl (js_mul pg (Fin (of_nat perPage)))) (Fin (of_nat total')),
      last_visible_page =
        Math_max (Fin 1) (Math_ceil (fl (Fin (of_nat total' / of_nat perPage)))),
      items_count =
        Math_min (Fin (of_nat perPage))
          (fl (js_sub (Fin (of_nat total'))
                 (fl (js_mul (fl (js_sub pg (Fin 1))) (Fin (of_nat perPage)))))),
      items_total = total',
      items_per_page = perPage\<rparr>"


section \<open>Episodes and streaming links of the AniList routes\<close>

text \<open>
  What one cached request meets: the clock when the cache is read, the clock when the
  cache is written, and the outcome of the \<open>fetch\<close>.
\<close>

record 'j call =
  read_at :: int
  write_at :: int
  upstream :: "'j outcome"

subsection \<open>getAniIdsByMalOrAni\<close>

text \<open>
  \<^verbatim>\<open>
  async function getAniIdsByMalOrAni(idRaw: string) {
    const idNum = Number(idRaw);
    if (!Number.isFinite(idNum)) return { id: null, idMal: null };
    const byMalQuery = `query($idMal: Int){ Media(idMal: $idMal, type: ANIME) { ... } }`;
    try {
      const mal = await gql(byMalQuery, { idMal: idNum });
      if (mal?.Media) return { id: mal.Media.id, idMal: mal.Media.idMal };
    } catch {}
    const byIdQuery = `query($id: Int){ Media(id: $id, type: ANIME) { ... } }`;
    try {
      const ani = await gql(byIdQuery, { id: idNum });
      if (ani?.Media) return { id: ani.Media.id, idMal: ani.Media.idMal };
    } catch {}
    return { id: null, idMal: null };
  }
  \<close>
  The data of a query is an object with \<open>Media\<close>, a media object or null (\<open>None\<close>), of which
  \<open>id\<close> and \<open>idMal\<close> are read. The cache key of \<open>gql\<close> is made of the query text and of the
  variables, here of which of the two queries it is and of \<open>idNum\<close>. Each \<open>try\<close> has an empty
  \<open>catch\<close>: an exception of \<open>gql\<close> is dropped and the function goes on.
\<close>

record media_ids =
  media_id :: jsval
  media_idMal :: jsval

datatype ids_query = ByMalQuery | ByIdQuery

type_synonym ids_cache = "(ids_query \<times> jsnum, media_ids option option) cache"

fun Number_isFinite :: "jsnum \<Rightarrow> bool" where
  "Number_isFinite (Fin r) = True"
| "Number_isFinite a = False"

definition no_ids :: media_ids where
  "no_ids = \<lparr>media_id = JNull, media_idMal = JNull\<rparr>"

definition getAniIdsByMalOrAni ::
  "ids_cache \<Rightarrow> jsstring \<Rightarrow> media_ids option gql_body call \<Rightarrow> media_ids option gql_body call
     \<Rightarrow> media_ids \<times> ids_cache" where
  "getAniIdsByMalOrAni cache idRaw by_mal by_id =
     (let idNum = StringToNumber idRaw in
      if \<not> Number_isFinite idNum then (no_ids, cache)
      else
        (case gql cache (read_at by_mal) (write_at by_mal) (ByMalQuery, idNum) (upstream by_mal) of
           (Inr (Some (Some m)), cache1) \<Rightarrow> (m, cache1)
         | (mal, cache1) \<Rightarrow>
             (case gql cache1 (read_at by_id) (write_at by_id) (ByIdQuery, idNum) (upstream by_id) of
                (Inr (Some (Some m)), cache2) \<Rightarrow> (m, cache2)
              | (ani, cache2) \<Rightarrow> (no_ids, cache2))))"

subsection \<open>The data of Anify\<close>

text \<open>
  The body of \<open>/episodes/:id\<close> as the handlers read it: an array of providers, or another
  value (then \<open>Array.isArray(data) ? data : []\<close> is empty). Of a provider, \<open>prov?.providerId\<close>
  is read for the order of preference, \<open>String(prov?.providerId || "")\<close> for the name of the
  links (for a string it is the string itself), and \<open>prov?.episodes\<close> when it is an array.
  An element of that array is an object or null (\<open>None\<close>); reading \<open>number\<close> of null raises a
  \<open>TypeError\<close>. A number, string or boolean in the place of a provider or of an episode
  reads as an object without these fields (they are \<open>undefined\<close>).
\<close>

record json_provider =
  jp_providerId :: jsval
  jp_name :: jsstring
  jp_episodes :: "raw_episode option list option"

datatype anify_json =
    JArray "json_provider list"
  | JOther jsval

datatype type_error = TypeError

fun truthy_json :: "anify_json \<Rightarrow> bool" where
  "truthy_json (JArray provs) = True"
| "truthy_json (JOther v) = truthy v"

text \<open>\<open>!data\<close>, for \<open>data\<close> that is null or a body.\<close>

definition no_data :: "anify_json option \<Rightarrow> bool" where
  "no_data d = (case d of None \<Rightarrow> True | Some j \<Rightarrow> \<not> truthy_json j)"

fun providers_of :: "anify_json \<Rightarrow> json_provider list" where
  "providers_of (JArray provs) = provs"
| "providers_of (JOther v) = []"

definition episodes_of :: "json_provider \<Rightarrow> raw_episode option list" where
  "episodes_of prov = (case jp_episodes prov of Some es \<Rightarrow> es | None \<Rightarrow> [])"

text \<open>The provider as the reconciler reads it, once no episode is null.\<close>

definition as_provider :: "json_provider \<Rightarrow> provider" where
  "as_provider prov =
     \<lparr>providerId = jp_providerId prov,
      episodes = map_option (\<lambda>es. concat (map (\<lambda>e. case e of Some x \<Rightarrow> [x] | None \<Rightarrow> []) es))
                   (jp_episodes prov)\<rparr>"

definition has_null_episode :: "json_provider list \<Rightarrow> bool" where
  "has_null_episode provs = list_ex (\<lambda>prov. list_ex (\<lambda>e. e = None) (episodes_of prov)) provs"

text \<open>The answer of a handler: the status and the body.\<close>

record 'b answer =
  answer_status :: nat
  answer_body :: 'b

subsection \<open>getEpisodes\<close>

text \<open>
  \<^verbatim>\<open>
  export const getEpisodes: RequestHandler = async (req, res) => {
    try {
      const idRaw = String(req.params.id || "").trim();
      const page = Math.max(1, Number(req.query.page || 1) || 1);
      const perPage = 24;

      const ids = await getAniIdsByMalOrAni(idRaw);
      if (!ids.id) return res.json({ episodes: [], pagination: null });

      const cacheKey = `anify:episodes:${ids.id}`;
      let data = getCached<any[]>(cacheKey);
      if (!data) {
        data = await fetchJson(`${ANIFY_BASE}/episodes/${ids.id}`);
        if (data) setCached(cacheKey, data);
      }
      if (!data) return res.json({ episodes: [], pagination: null });

      const providers: any[] = Array.isArray(data) ? data : [];
      ... (the reconciler and the pagination)
      return res.json({ episodes: paged, pagination });
    } catch (e: any) {
      res.status(500).json({ error: e?.message || "Episodes failed" });
    }
  };
  \<close>
  \<open>req.params.id\<close> is a string (the empty one when it is missing). The module has one cache
  object; the keys of \<open>gql\<close> start with \<open>gql:\<close> and those of the episodes with
  \<open>anify:episodes:\<close>, so the model keeps the two parts apart, and the second is keyed by
  \<open>ids.id\<close>, the value the key is made from. The loop of the reconciler reads \<open>ep.number\<close> of
  every element of every \<open>episodes\<close> array, so it raises when one of them is null, and the
  \<open>catch\<close> answers 500 with \<open>{error}\<close> (\<open>EpisodesFailed\<close>); nothing else in the \<open>try\<close> block
  raises. \<open>providers.sort\<close> sorts the array in place, the cached one too; the sort is stable,
  sorting the sorted array changes nothing, and the model leaves the stored array as it was
  fetched.
\<close>

type_synonym episodes_cache = "(jsval, anify_json) cache"

definition cached_episodes ::
  "episodes_cache \<Rightarrow> jsval \<Rightarrow> anify_json call \<Rightarrow> anify_json option \<times> episodes_cache" where
  "cached_episodes cache key anify =
     (let d = getCached cache (read_at anify) key in
      if no_data d then
        (case fetchJson_anify (upstream anify) of
           None \<Rightarrow> (None, cache)
         | Some j \<Rightarrow> (Some j, if truthy_json j then setCached cache (write_at anify) key j else cache))
      else (d, cache))"

datatype episodes_body =
    Episodes episodes_payload
  | NoEpisodes
  | EpisodesFailed

definition getEpisodes ::
  "ids_cache \<Rightarrow> episodes_cache \<Rightarrow> jsstring \<Rightarrow> jsval
     \<Rightarrow> media_ids option gql_body call \<Rightarrow> media_ids option gql_body call \<Rightarrow> anify_json call
     \<Rightarrow> episodes_body answer \<times> ids_cache \<times> episodes_cache" where
  "getEpisodes gcache ecache param_id query_page by_mal by_id anify =
     (let idRaw = trim param_id;
          (ids, gcache') = getAniIdsByMalOrAni gcache idRaw by_mal by_id
      in if \<not> truthy (media_id ids) then
           (\<lparr>answer_status = 200, answer_body = NoEpisodes\<rparr>, gcache', ecache)
         else
           let (d, ecache') = cached_episodes ecache (media_id ids) anify
           in (case d of
                 None \<Rightarrow> (\<lparr>answer_status = 200, answer_body = NoEpisodes\<rparr>, gcache', ecache')
               | Some j \<Rightarrow>
                   if \<not> truthy_json j then
                     (\<lparr>answer_status = 200, answer_body = NoEpisodes\<rparr>, gcache', ecache')
                   else if has_null_episode (providers_of j) then
                     (\<lparr>answer_status = 500, answer_body = EpisodesFailed\<rparr>, gcache', ecache')
                   else
                     (\<lparr>answer_status = 200,
                       answer_body =
                         Episodes (getEpisodes_payload query_page (media_id ids)
                                     (map as_provider (providers_of j)))\<rparr>,
                      gcache', ecache')))"

subsection \<open>getStreaming\<close>

text \<open>
  \<^verbatim>\<open>
  export const getStreaming: RequestHandler = async (req, res) => {
    try {
      const idRaw = String(req.params.id || "").trim();
      const epNum = Math.max(1, Number(req.query.ep || 1) || 1);
      const subType = String(req.query.sub || "sub");
      const ids = await getAniIdsByMalOrAni(idRaw);
      if (!ids.id) return res.json({ links: [] });

      const data = await fetchJson(`${ANIFY_BASE}/episodes/${ids.id}`);
      if (!data) return res.json({ links: [] });
      const providers: any[] = Array.isArray(data) ? data : [];
      const preferred = ["gogoanime", "zoro", "aniwatch", "animepahe", "9anime", "aniwave"];

      const links: { name: string; url: string }[] = [];

      for (const prov of providers.sort((a, b) =>
             preferred.indexOf(a?.providerId) - preferred.indexOf(b?.providerId))) {
        const providerId = String(prov?.providerId || "");
        if (!providerId) continue;
        const eps = Array.isArray(prov?.episodes) ? prov.episodes : [];
        const match = eps.find((e: any) =>
          (typeof e.number === "number" ? e.number : Number(e.number) || 0) === epNum);
        if (!match || !match.id) continue;

        const params = new URLSearchParams({ providerId, watchId: String(match.id),
          episodeNumber: String(epNum), id: String(ids.id), subType });
        const src = await fetchJson(`${ANIFY_BASE}/sources?${params.toString()}`, 10000);
        const srcArr = (src && (src.sources || src.data || src.stream)) || [];
        if (Array.isArray(srcArr)) {
          for (const s of srcArr) if (s?.url) links.push({ name: providerId, url: s.url });
        } else if (src?.url) {
          links.push({ name: providerId, url: src.url });
        }

        if (links.length > 0) break;
      }

      res.json({ links });
    } catch (e: any) {
      res.status(500).json({ error: e?.message || "Streaming providers failed" });
    }
  };
  \<close>
  The body of \<open>/sources\<close> is read through \<open>sources\<close>, \<open>data\<close>, \<open>stream\<close> and \<open>url\<close>. Each of the
  first three is an array, of whose elements \<open>s?.url\<close> is read, or another value
  (\<open>undefined\<close> when it is missing); a body that is no object has none of the four and is
  the record with four times \<open>undefined\<close>, and like it yields no link. \<open>subType\<close> goes into
  the address of the request only. A \<open>TypeError\<close> is answered by the \<open>catch\<close> with status 500
  and \<open>{error}\<close> (\<open>StreamingFailed\<close>).
\<close>

datatype source_field =
    Items "jsval list"
  | Other jsval

record sources_json =
  src_sources :: source_field
  src_data :: source_field
  src_stream :: source_field
  src_url :: jsval

record link =
  link_name :: jsstring
  link_url :: jsval

fun truthy_field :: "source_field \<Rightarrow> bool" where
  "truthy_field (Items urls) = True"
| "truthy_field (Other v) = truthy v"

definition field_or :: "source_field \<Rightarrow> source_field \<Rightarrow> source_field" where
  "field_or a b = (if truthy_field a then a else b)"

text \<open>The links one provider adds, from what \<open>fetchJson\<close> returned for its sources.\<close>

definition source_links :: "jsstring \<Rightarrow> sources_json option \<Rightarrow> link list" where
  "source_links name src =
     (case src of
        None \<Rightarrow> []
      | Some j \<Rightarrow>
          (case field_or (field_or (field_or (src_sources j) (src_data j)) (src_stream j)) (Items []) of
             Items urls \<Rightarrow> map (\<lambda>u. \<lparr>link_name = name, link_url = u\<rparr>) (filter truthy urls)
           | Other v \<Rightarrow>
               if truthy (src_url j) then [\<lparr>link_name = name, link_url = src_url j\<rparr>] else []))"

text \<open>\<open>a === b\<close> on numbers.\<close>

definition strict_equals :: "jsnum \<Rightarrow> jsnum \<Rightarrow> bool" where
  "strict_equals a b \<longleftrightarrow> a \<noteq> NaN \<and> b \<noteq> NaN \<and> a = b"

text \<open>
  \<open>eps.find(...)\<close>: the first element with the wanted number, \<open>undefined\<close> (\<open>None\<close>) when there
  is none; a null element met before raises.
\<close>

fun find_episode :: "jsnum \<Rightarrow> raw_episode option list \<Rightarrow> type_error + raw_episode option" where
  "find_episode epNum [] = Inr None"
| "find_episode epNum (None # es) = Inl TypeError"
| "find_episode epNum (Some e # es) =
     (if strict_equals (episode_num e) epNum then Inr (Some e) else find_episode epNum es)"

text \<open>
  The loop over the sorted providers. \<open>up k\<close> is the outcome of the request for sources
  number \<open>k\<close> of this call of the handler, and \<open>links\<close> the array filled so far.
\<close>

fun stream_loop ::
  "jsnum \<Rightarrow> (nat \<Rightarrow> sources_json outcome) \<Rightarrow> nat \<Rightarrow> link list \<Rightarrow> json_provider list
     \<Rightarrow> type_error + link list" where
  "stream_loop epNum up k links [] = Inr links"
| "stream_loop epNum up k links (prov # provs) =
     (if jp_name prov = [] then stream_loop epNum up k links provs
      else
        (case find_episode epNum (episodes_of prov) of
           Inl e \<Rightarrow> Inl e
         | Inr None \<Rightarrow> stream_loop epNum up k links provs
         | Inr (Some match) \<Rightarrow>
             if \<not> truthy (ep_id match) then stream_loop epNum up k links provs
             else
               let links' = links @ source_links (jp_name prov) (fetchJson_anify (up k))
               in if 0 < length links' then Inr links'
                  else stream_loop epNum up (Suc k) links' provs))"

definition by_stream_preference :: "json_provider \<Rightarrow> json_provider \<Rightarrow> jsnum" where
  "by_stream_preference a b =
     Fin (of_int (indexOf preferred (jp_providerId a) - indexOf preferred (jp_providerId b)))"

datatype streaming_body =
    Links "link list"
  | StreamingFailed

definition getStreaming ::
  "ids_cache \<Rightarrow> jsstring \<Rightarrow> jsval
     \<Rightarrow> media_ids option gql_body call \<Rightarrow> media_ids option gql_body call
     \<Rightarrow> anify_json outcome \<Rightarrow> (nat \<Rightarrow> sources_json outcome)
     \<Rightarrow> streaming_body answer \<times> ids_cache" where
  "getStreaming gcache param_id query_ep by_mal by_id episodes_up sources_up =
     (let idRaw = trim param_id;
          epNum = Math_max (Fin 1) (num_or (ToNumber (js_or query_ep (JNumber (Fin 1)))) (Fin 1));
          (ids, gcache') = getAniIdsByMalOrAni gcache idRaw by_mal by_id
      in if \<not> truthy (media_id ids) then
           (\<lparr>answer_status = 200, answer_body = Links []\<rparr>, gcache')
         else
           let d = fetchJson_anify episodes_up
           in if no_data d then (\<lparr>answer_status = 200, answer_body = Links []\<rparr>, gcache')
              else
                (case stream_loop epNum sources_up 0 []
                        (Array_sort by_stream_preference
                           (case d of Some j \<Rightarrow> providers_of j | None \<Rightarrow> [])) of
                   Inl e \<Rightarrow> (\<lparr>answer_status = 500, answer_body = StreamingFailed\<rparr>, gcache')
                 | Inr links \<Rightarrow> (\<lparr>answer_status = 200, answer_body = Links links\<rparr>, gcache')))"


section \<open>Invariants and concrete inputs used below\<close>

text \<open>
  The nodes collected by the walk of \<open>getInfo\<close> have distinct ids, all of them in the visited
  set.
\<close>

definition info_inv :: "info_walk \<Rightarrow> bool" where
  "info_inv w \<longleftrightarrow>
     distinct (map node_id (info_nodes w)) \<and> node_id ` set (info_nodes w) \<subseteq> info_seen w"

text \<open>
  A function on strings that never lengthens its argument, and that returns it unchanged
  whenever it returns a string of the same length.
\<close>

definition shortens :: "('a list \<Rightarrow> 'a list) \<Rightarrow> bool" where
  "shortens f \<longleftrightarrow>
     (\<forall>s. length (f s) \<le> length s \<and> (length (f s) = length s \<longrightarrow> f s = s))"

text \<open>Relation groups and edges with one field of interest each.\<close>

definition ex_node :: "int \<Rightarrow> string \<Rightarrow> media_node" where
  "ex_node i f = \<lparr>node_id = i, node_idMal = None, node_format = Some (lit f), node_title = None\<rparr>"

definition ex_edge :: "string \<Rightarrow> media_node \<Rightarrow> edge" where
  "ex_edge t n = \<lparr>relationType = JString (lit t), edge_node = Some n\<rparr>"

definition ex_entry :: "int \<Rightarrow> string \<Rightarrow> rel_entry" where
  "ex_entry i t =
     \<lparr>entry_mal_id = i, entry_type = JString (lit t), entry_name = JString (lit ''T'')\<rparr>"

definition ex_relation :: "string \<Rightarrow> rel_entry list \<Rightarrow> relation" where
  "ex_relation name es = \<lparr>rel_relation = JString (lit name), rel_entry = Some es\<rparr>"

text \<open>
  A Jikan upstream with a cycle of two: anime 1 names 2 as its prequel, and anime 2 names 1
  as its prequel; every other id answers 404.
\<close>

definition cyc_anime :: "int \<Rightarrow> int \<Rightarrow> jikan_anime" where
  "cyc_anime i p =
     \<lparr>mal_id = i, title = JString (lit ''T''), title_english = JNull, title_japanese = JNull,
      relations = Some [ex_relation ''Prequel'' [ex_entry p ''TV'']]\<rparr>"

definition cyc_jikan :: jikan where
  "cyc_jikan i = (if i = 1 then Response 200 (Inr (Some (cyc_anime 1 2)))
                  else if i = 2 then Response 200 (Inr (Some (cyc_anime 2 1)))
                  else Response 404 (Inr None))"


text \<open>
  The entries of the reconciler's \<open>Map\<close> have distinct keys, each the truthy number of its
  record.
\<close>

definition map_inv :: "(jsnum \<times> episode) list \<Rightarrow> bool" where
  "map_inv m \<longleftrightarrow>
     distinct (map fst m) \<and> (\<forall>(k, v)\<in>set m. e_number v = k \<and> truthy_num k)"

text \<open>The episodes of a list of providers, in the order the two loops visit them.\<close>

definition all_episodes :: "provider list \<Rightarrow> raw_episode list" where
  "all_episodes provs = concat (map (\<lambda>p. case episodes p of Some es \<Rightarrow> es | None \<Rightarrow> []) provs)"

text \<open>An episode \<open>{number: n, id: i}\<close> and a provider \<open>{providerId: p, episodes: es}\<close>.\<close>

definition mk_ep :: "rat \<Rightarrow> string \<Rightarrow> raw_episode" where
  "mk_ep n i = \<lparr>ep_number = JNumber (Fin n), ep_id = JString (lit i), ep_title = JUndefined\<rparr>"

definition mk_prov :: "string \<Rightarrow> raw_episode list \<Rightarrow> provider" where
  "mk_prov p es = \<lparr>providerId = JString (lit p), episodes = Some es\<rparr>"


text \<open>
  The outcomes of a request that claim C6 calls a transport failure: the \<open>fetch\<close> rejects
  (a network error, or the abort after the timeout), the status is outside 200 to 299, or
  the body does not parse.
\<close>

definition transport_failure :: "'j outcome \<Rightarrow> bool" where
  "transport_failure up =
     (case up of Rejected e \<Rightarrow> True | Response st body \<Rightarrow> \<not> is_ok st \<or> isl body)"

text \<open>
  Requests and bodies for the handlers of the AniList routes: a request at time 0, the
  answer of AniList for the media 7 (MAL id 3), two providers with episode 1, and a body of
  \<open>/sources\<close> with one address.
\<close>

definition call_of :: "'j outcome \<Rightarrow> 'j call" where
  "call_of up = \<lparr>read_at = 0, write_at = 0, upstream = up\<rparr>"

definition media_7 :: "media_ids option gql_body outcome" where
  "media_7 =
     Response 200
       (Inr \<lparr>body_errors = False,
             body_data = Some (Some \<lparr>media_id = JNumber (Fin 7), media_idMal = JNumber (Fin 3)\<rparr>)\<rparr>)"

definition mk_stream :: "string \<Rightarrow> raw_episode option list \<Rightarrow> json_provider" where
  "mk_stream p es = \<lparr>jp_providerId = JString (lit p), jp_name = lit p, jp_episodes = Some es\<rparr>"

definition two_streams :: "anify_json outcome" where
  "two_streams =
     Response 200
       (Inr (JArray [mk_stream ''zoro'' [Some (mk_ep 1 ''z1'')],
                     mk_stream ''gogoanime'' [Some (mk_ep 1 ''g1'')]]))"

definition one_source :: "sources_json outcome" where
  "one_source =
     Response 200
       (Inr \<lparr>src_sources = Items [JString (lit ''u'')], src_data = Other JUndefined,
             src_stream = Other JUndefined, src_url = JUndefined\<rparr>)"


section \<open>Properties of the TTL cache\<close>

lemma getCached_setCached:
  "getCached (setCached c t0 k v) t1 k = (if t1 - t0 > TTL_MS then None else Some v)"
  by (simp add: getCached_def setCached_def)

lemma episodesCache_get_set:
  "episodesCache_get (episodesCache_set c t0 k v) t1 k =
     (if t1 - t0 < EPISODES_TTL_MS then Some v else None)"
  by (simp add: episodesCache_get_def episodesCache_set_def)

lemma expired_entry_stays:
  "setCached c t0 k v k = Some \<lparr>at_ms = t0, data = v\<rparr>"
  "episodesCache_set c t0 k v k = Some \<lparr>at_ms = t0, data = v\<rparr>"
  by (simp_all add: setCached_def episodesCache_set_def)

text \<open>
  Claim C9 says that a \<open>get\<close> after \<open>set\<close> returns the stored value while the entry's age is
  within the TTL window, an entry being expired when its age exceeds the TTL. \<open>getCached\<close>
  does so: it hits at every age up to \<open>TTL_MS\<close>, the age \<open>TTL_MS\<close> included, and misses one
  millisecond later. The episodes cache of the Jikan routes tests
  \<open>now - cached.at < EPISODES_TTL_MS\<close>: it hits one millisecond before the age
  \<open>EPISODES_TTL_MS\<close>, but an entry read exactly \<open>EPISODES_TTL_MS\<close> after it was written, whose
  age does not exceed the TTL, is a miss.
\<close>

theorem episodesCache_miss_at_ttl:
  "episodesCache_get (episodesCache_set c t0 k v) (t0 + EPISODES_TTL_MS) k = None
 \<and> episodesCache_get (episodesCache_set c t0 k v) (t0 + EPISODES_TTL_MS - 1) k = Some v
 \<and> getCached (setCached c t0 k v) (t0 + TTL_MS) k = Some v
 \<and> getCached (setCached c t0 k v) (t0 + TTL_MS + 1) k = None"
  by (simp add: getCached_setCached episodesCache_get_set)


section \<open>Properties of the rounding to binary64\<close>

lemma two_powi_pos: "0 < (2::rat) powi e"
  by (simp add: zero_less_power_int)

lemma two_powi_less: "a < b \<Longrightarrow> (2::rat) powi a < 2 powi b"
  by (rule power_int_strict_increasing) simp_all

lemma two_powi_le: "a \<le> b \<Longrightarrow> (2::rat) powi a \<le> 2 powi b"
  by (rule power_int_increasing) simp_all

lemma exponent_of_bounds:
  assumes "0 < x"
  shows "2 powi exponent_of x \<le> x \<and> x < 2 powi (exponent_of x + 1)"
proof (cases "1 \<le> x")
  case True
  define n where "n = \<lfloor>x\<rfloor>"
  have n: "0 < n" using True by (simp add: n_def)
  define b where "b = bitlen n"
  have b1: "1 \<le> b" using n by (simp add: b_def bitlen_alt_def)
  from bitlen_bounds [OF n] have lo: "2 ^ nat (b - 1) \<le> n" and hi: "n < 2 ^ nat b"
    by (simp_all add: b_def)
  have e: "exponent_of x = b - 1"
    using True by (simp add: exponent_of_def n_def b_def)
  have "(2::rat) powi (b - 1) = 2 ^ nat (b - 1)"
    using b1 by (simp add: power_int_nonneg_exp)
  also have "\<dots> = of_int (2 ^ nat (b - 1))" by simp
  also have "\<dots> \<le> of_int n" using lo by (simp only: of_int_le_iff)
  also have "\<dots> \<le> x" using floor_correct [of x] by (simp add: n_def)
  finally have l: "2 powi (b - 1) \<le> x" .
  have "x < of_int (n + 1)" using floor_correct [of x] by (simp add: n_def)
  also have "\<dots> \<le> of_int (2 ^ nat b)" using hi by (simp only: of_int_le_iff)
  also have "\<dots> = (2::rat) powi b" using b1 by (simp add: power_int_nonneg_exp)
  finally have "x < 2 powi b" .
  with l e show ?thesis by simp
next
  case False
  define y where "y = 1 / x"
  have y1: "1 < y" using False assms by (simp add: y_def)
  define n where "n = \<lceil>y\<rceil>"
  have n2: "0 < n - 1"
  proof -
    have "1 < (of_int n :: rat)" using y1 ceiling_correct [of y] by (simp add: n_def)
    then have "1 < n" by (simp only: of_int_1_less_iff)
    then show ?thesis by simp
  qed
  define c where "c = bitlen (n - 1)"
  have c1: "1 \<le> c" using n2 by (simp add: c_def bitlen_alt_def)
  from bitlen_bounds [OF n2] have lo: "2 ^ nat (c - 1) \<le> n - 1" and hi: "n - 1 < 2 ^ nat c"
    by (simp_all add: c_def)
  have e: "exponent_of x = - c"
    using False by (simp add: exponent_of_def n_def c_def y_def)
  have "y \<le> of_int n" using ceiling_correct [of y] by (simp add: n_def)
  also have "\<dots> \<le> of_int (2 ^ nat c)" using hi by (simp only: of_int_le_iff)
  also have "\<dots> = (2::rat) powi c" using c1 by (simp add: power_int_nonneg_exp)
  finally have yc: "y \<le> 2 powi c" .
  have "(2::rat) powi (c - 1) = of_int (2 ^ nat (c - 1))"
    using c1 by (simp add: power_int_nonneg_exp)
  also have "\<dots> \<le> of_int (n - 1)" using lo by (simp only: of_int_le_iff)
  also have "\<dots> < y" using ceiling_correct [of y] by (simp add: n_def)
  finally have cy: "2 powi (c - 1) < y" .
  have "2 powi (- c) \<le> x"
  proof -
    have "1 / (2::rat) powi c \<le> 1 / y"
      using yc y1 by (intro divide_left_mono) (simp_all add: two_powi_pos)
    then show ?thesis using assms by (simp add: y_def power_int_minus_divide)
  qed
  moreover have "x < 2 powi (- c + 1)"
  proof -
    have "1 / y < 1 / (2::rat) powi (c - 1)"
      using cy y1 by (intro divide_strict_left_mono) (simp_all add: two_powi_pos)
    moreover have "(2::rat) powi (- c + 1) = 1 / 2 powi (c - 1)"
      using power_int_minus_divide [of "2::rat" "c - 1"] by simp
    ultimately show ?thesis using assms by (simp add: y_def)
  qed
  ultimately show ?thesis using e by simp
qed

lemma exponent_of_unique:
  assumes "0 < x" and "2 powi e \<le> x" and "x < 2 powi (e + 1)"
  shows "exponent_of x = e"
proof -
  let ?a = "exponent_of x"
  from exponent_of_bounds [OF assms(1)]
  have a1: "2 powi ?a \<le> x" and a2: "x < 2 powi (?a + 1)" by simp_all
  have "\<not> ?a < e"
  proof
    assume "?a < e"
    then have "(2::rat) powi (?a + 1) \<le> 2 powi e" by (intro two_powi_le) simp
    with a2 assms(2) show False by simp
  qed
  moreover have "\<not> e < ?a"
  proof
    assume "e < ?a"
    then have "(2::rat) powi (e + 1) \<le> 2 powi ?a" by (intro two_powi_le) simp
    with a1 assms(3) show False by simp
  qed
  ultimately show ?thesis by simp
qed

lemma round_half_even_error: "\<bar>of_int (round_half_even y) - y\<bar> \<le> 1 / 2"
proof -
  have "of_int \<lfloor>y\<rfloor> \<le> y" "y < of_int \<lfloor>y\<rfloor> + 1"
    using floor_correct [of y] by simp_all
  then show ?thesis
    unfolding round_half_even_def Let_def by (auto simp: abs_if) linarith+
qed

lemma round_half_even_of_int: "round_half_even (of_int k) = k"
  by (simp add: round_half_even_def)

lemma round_half_even_near:
  assumes "\<bar>y - of_int m\<bar> < 1 / 2"
  shows "round_half_even y = m"
proof -
  have "\<lfloor>y\<rfloor> = m \<or> \<lfloor>y\<rfloor> = m - 1"
    using assms floor_correct [of y] by (auto simp: abs_if split: if_splits) linarith+
  then show ?thesis
    using assms floor_correct [of y]
    unfolding round_half_even_def Let_def
    by (auto simp: abs_if split: if_splits)
qed

lemma round_half_even_tie:
  assumes "y = of_int f + 1 / 2"
  shows "round_half_even y = (if even f then f else f + 1)"
proof -
  have "\<lfloor>y\<rfloor> = f" unfolding assms by (intro floor_unique) simp_all
  then show ?thesis
    unfolding round_half_even_def Let_def by (simp add: assms)
qed

lemma round_half_even_ge:
  assumes "of_int m \<le> y"
  shows "m \<le> round_half_even y"
proof -
  have "m \<le> \<lfloor>y\<rfloor>" using assms by (simp add: le_floor_iff)
  moreover have "\<lfloor>y\<rfloor> \<le> round_half_even y"
    unfolding round_half_even_def Let_def by simp
  ultimately show ?thesis by simp
qed

text \<open>
  A value with at most 53 significant bits in the normal range is not changed; in
  particular the integers below \<open>2 ^ 53\<close> in magnitude are exact.
\<close>

lemma round64_exact:
  assumes "x \<noteq> 0" and lo: "2 powi e \<le> \<bar>x\<bar>" and hi: "\<bar>x\<bar> < 2 powi (e + 1)"
    and e: "- 1022 \<le> e" "e < 1024" and k: "\<bar>x\<bar> = of_int k * 2 powi (e - 52)"
  shows "round64 x = Fin x"
proof -
  have ex: "exponent_of \<bar>x\<bar> = e"
    using assms(1) lo hi by (intro exponent_of_unique) simp_all
  let ?q = "(2::rat) powi (e - 52)"
  have q: "0 < ?q" by (rule two_powi_pos)
  have "\<bar>x\<bar> / ?q = of_int k" using k q by simp
  then have v: "of_int (round_half_even (\<bar>x\<bar> / ?q)) * ?q = \<bar>x\<bar>"
    using k by (simp add: round_half_even_of_int)
  have "\<bar>x\<bar> < 2 powi 1024"
  proof -
    have "(2::rat) powi (e + 1) \<le> 2 powi 1024" using e by (intro two_powi_le) simp
    with hi show ?thesis by simp
  qed
  then have no: "\<not> (2::rat) powi 1024 \<le> \<bar>x\<bar>" by simp
  have m: "max e (- 1022) = e" using e by simp
  show ?thesis
    unfolding round64_def Let_def ex m v using assms(1) no by (simp add: abs_if)
qed

lemma round64_of_int:
  assumes "\<bar>n\<bar> < 2 ^ 53"
  shows "round64 (of_int n) = Fin (of_int n)"
proof (cases "n = 0")
  case True
  then show ?thesis by (simp add: round64_def)
next
  case False
  define a where "a = \<bar>n\<bar>"
  have a: "0 < a" using False by (simp add: a_def)
  define e where "e = bitlen a - 1"
  have b1: "1 \<le> bitlen a" using a by (simp add: bitlen_alt_def)
  from bitlen_bounds [OF a] have lo: "2 ^ nat e \<le> a" and hi: "a < 2 ^ nat (e + 1)"
    by (simp_all add: e_def)
  have e0: "0 \<le> e" using b1 by (simp add: e_def)
  have e52: "e \<le> 52"
  proof (rule ccontr)
    assume "\<not> e \<le> 52"
    then have "53 \<le> nat e" by simp
    then have "(2::int) ^ 53 \<le> 2 ^ nat e" by (intro power_increasing) simp_all
    with lo assms show False by (simp add: a_def)
  qed
  have abs: "\<bar>of_int n :: rat\<bar> = of_int a" by (simp add: a_def)
  have l: "(2::rat) powi e \<le> \<bar>of_int n\<bar>"
  proof -
    have "(2::rat) powi e = of_int (2 ^ nat e)" using e0 by (simp add: power_int_nonneg_exp)
    also have "\<dots> \<le> of_int a" using lo by (simp only: of_int_le_iff)
    finally show ?thesis by (simp add: abs)
  qed
  have h: "\<bar>of_int n :: rat\<bar> < 2 powi (e + 1)"
  proof -
    have "(of_int a :: rat) < of_int (2 ^ nat (e + 1))" using hi by (simp only: of_int_less_iff)
    also have "\<dots> = (2::rat) powi (e + 1)" using e0 by (simp add: power_int_nonneg_exp)
    finally show ?thesis by (simp add: abs)
  qed
  have k: "\<bar>of_int n :: rat\<bar> = of_int (a * 2 ^ nat (52 - e)) * 2 powi (e - 52)"
  proof -
    have "(2::rat) powi (e - 52) = 1 / 2 ^ nat (52 - e)"
      using e52 power_int_minus_divide [of "2::rat" "52 - e"]
      by (simp add: power_int_nonneg_exp)
    then show ?thesis by (simp add: abs)
  qed
  show ?thesis
    by (rule round64_exact [OF _ l h _ _ k]) (use False e0 e52 in simp_all)
qed

lemma round64_normal:
  assumes "0 < x" and lo: "2 powi e \<le> x" and hi: "x < 2 powi (e + 1)"
    and e: "- 1022 \<le> e" "e < 1023"
  shows "round64 x = Fin (of_int (round_half_even (x / 2 powi (e - 52))) * 2 powi (e - 52))"
    and "\<bar>of_int (round_half_even (x / 2 powi (e - 52))) * 2 powi (e - 52) - x\<bar>
           \<le> 2 powi (e - 53)"
proof -
  have ex: "exponent_of x = e"
    using assms(1) lo hi by (intro exponent_of_unique) simp_all
  let ?q = "(2::rat) powi (e - 52)"
  let ?v = "of_int (round_half_even (x / ?q)) * ?q"
  have q: "0 < ?q" by (rule two_powi_pos)
  have half: "?q / 2 = 2 powi (e - 53)"
    using power_int_add [of "2::rat" "e - 53" 1] by simp
  have "\<bar>?v - x\<bar> = \<bar>of_int (round_half_even (x / ?q)) - x / ?q\<bar> * ?q"
  proof -
    have "?v - x = (of_int (round_half_even (x / ?q)) - x / ?q) * ?q"
      using q by (simp add: algebra_simps)
    then show ?thesis using q by (simp add: abs_mult)
  qed
  also have "\<dots> \<le> (1 / 2) * ?q"
    using round_half_even_error [of "x / ?q"] q by (intro mult_right_mono) simp_all
  finally show err: "\<bar>?v - x\<bar> \<le> 2 powi (e - 53)" using half by simp
  have "?v \<le> x + 2 powi (e - 53)" using err by (simp add: abs_le_iff)
  also have "\<dots> < 2 powi (e + 1) + 2 powi (e + 1)"
  proof -
    have "(2::rat) powi (e - 53) \<le> 2 powi (e + 1)" by (intro two_powi_le) simp
    with hi show ?thesis by simp
  qed
  also have "\<dots> = 2 powi (e + 2)"
    using power_int_add [of "2::rat" "e + 1" 1] by (simp add: add.commute)
  also have "\<dots> \<le> 2 powi 1024" using e by (intro two_powi_le) simp
  finally have no: "\<not> (2::rat) powi 1024 \<le> ?v" by simp
  have m: "max e (- 1022) = e" using e by simp
  have x: "\<bar>x\<bar> = x" using assms(1) by simp
  show "round64 x = Fin ?v"
    unfolding round64_def Let_def x using assms(1) no
    by (simp add: ex m)
qed

lemma round64_error:
  assumes "0 < x" and "2 powi e \<le> x" and "x < 2 powi (e + 1)"
    and "- 1022 \<le> e" "e < 1023"
  shows "\<exists>v. round64 x = Fin v \<and> \<bar>v - x\<bar> \<le> 2 powi (e - 53)"
  using round64_normal [OF assms] by blast

lemma round64_5_2: "round64 (5 / 2) = Fin (5 / 2)"
  by (rule round64_exact [where e = 1 and k = "5 * 2 ^ 50"]) simp_all

lemma round64_3: "round64 3 = Fin 3"
  using round64_of_int [of 3] by simp

lemma round64_2: "round64 2 = Fin 2"
  using round64_of_int [of 2] by simp

lemma ceiling_round64_div:
  assumes "n < 2 ^ 32"
  shows "\<exists>v. round64 (of_nat n / 24) = Fin v \<and> \<lceil>v\<rceil> = \<lceil>(of_nat n :: rat) / 24\<rceil>"
proof (cases "n mod 24 = 0")
  case True
  then obtain k where k: "n = 24 * k" by auto
  have "\<bar>int k\<bar> < 2 ^ 53" using assms k by simp
  from round64_of_int [OF this] have "round64 (of_nat n / 24) = Fin (of_nat n / 24)"
    by (simp add: k)
  then show ?thesis by blast
next
  case False
  define k where "k = n div 24"
  define r where "r = n mod 24"
  have r: "1 \<le> r" "r \<le> 23" using False by (simp_all add: r_def)
  have n: "n = 24 * k + r" by (simp add: k_def r_def)
  define x :: rat where "x = of_nat n / 24"
  have xk: "x = of_nat k + of_nat r / 24" by (simp add: x_def n)
  have lo: "of_nat k + 1 / 24 \<le> x"
    using r by (simp add: xk divide_right_mono)
  have hi: "x \<le> of_nat k + 23 / 24"
  proof -
    have "(of_nat r :: rat) \<le> 23" using r by (metis of_nat_le_iff of_nat_numeral)
    then show ?thesis by (simp add: xk)
  qed
  have xpos: "0 < x" using lo by (simp add: add_pos_nonneg)
  define e where "e = exponent_of x"
  from exponent_of_bounds [OF xpos] have b: "2 powi e \<le> x" "x < 2 powi (e + 1)"
    by (simp_all add: e_def)
  have e_lo: "- 5 \<le> e"
  proof (rule ccontr)
    assume "\<not> - 5 \<le> e"
    then have "(2::rat) powi (e + 1) \<le> 2 powi (- 5)" by (intro two_powi_le) simp
    with b(2) have "x < 1 / 32" by simp
    with lo show False by simp
  qed
  have e_hi: "e \<le> 27"
  proof (rule ccontr)
    assume "\<not> e \<le> 27"
    then have "(2::rat) powi 28 \<le> 2 powi e" by (intro two_powi_le) simp
    with b(1) have "2 ^ 28 \<le> x" by simp
    moreover have "x < 2 ^ 28"
    proof -
      have "(of_nat n :: rat) < of_nat (2 ^ 32)" using assms by (simp only: of_nat_less_iff)
      then show ?thesis by (simp add: x_def)
    qed
    ultimately show False by simp
  qed
  from round64_error [OF xpos b] e_lo e_hi
  obtain v where v: "round64 x = Fin v" and err: "\<bar>v - x\<bar> \<le> 2 powi (e - 53)"
    by auto
  have "(2::rat) powi (e - 53) \<le> 2 powi (- 26)" using e_hi by (intro two_powi_le) simp
  with err have err': "\<bar>v - x\<bar> \<le> 1 / 67108864" by simp
  have vlo: "of_nat k < v" using err' lo by linarith
  have vhi: "v < of_nat k + 1" using err' hi by linarith
  have cv: "\<lceil>v\<rceil> = int k + 1"
    by (rule ceiling_unique) (use vlo vhi in simp_all)
  have cx: "\<lceil>x\<rceil> = int k + 1"
    by (rule ceiling_unique) (use lo hi in simp_all)
  from v cv cx show ?thesis by (simp add: x_def)
qed


text \<open>
  Rounding does not go below an integer under the exact value: a product that is at least
  \<open>total\<close> is not rounded to less than \<open>total\<close>.
\<close>

lemma round64_ge_nat:
  assumes n: "n < 2 ^ 53" and x: "of_nat n \<le> x"
  shows "\<not> js_lt (round64 x) (Fin (of_nat n))"
proof (cases "x = 0")
  case True
  with x have "n = 0" by simp
  with True show ?thesis by (simp add: round64_def)
next
  case False
  with x have pos: "0 < x" by (smt (verit) of_nat_0_le_iff order_trans order_less_le)
  define e where "e = max (exponent_of x) (- 1022)"
  let ?q = "(2::rat) powi (e - 52)"
  define v where "v = of_int (round_half_even (x / ?q)) * ?q"
  have q: "0 < ?q" by (rule two_powi_pos)
  have ax: "\<bar>x\<bar> = x" using pos by simp
  have r: "round64 x = (if 2 powi 1024 \<le> v then PosInf else Fin v)"
    unfolding round64_def Let_def ax using pos by (simp add: e_def v_def)
  have "of_nat n \<le> v"
  proof (cases "e \<le> 52")
    case True
    have qq: "?q = 1 / 2 ^ nat (52 - e)"
      using True power_int_minus_divide [of "2::rat" "52 - e"]
      by (simp add: power_int_nonneg_exp)
    have "of_int (int n * 2 ^ nat (52 - e)) = of_nat n / ?q" by (simp add: qq)
    also have "\<dots> \<le> x / ?q" using x q by (simp add: divide_right_mono)
    finally have "int n * 2 ^ nat (52 - e) \<le> round_half_even (x / ?q)"
      by (rule round_half_even_ge)
    then have "(of_int (int n * 2 ^ nat (52 - e)) :: rat) \<le> of_int (round_half_even (x / ?q))"
      by (simp only: of_int_le_iff)
    then have "of_int (int n * 2 ^ nat (52 - e)) * ?q \<le> v"
      unfolding v_def using q by (intro mult_right_mono) simp_all
    then show ?thesis by (simp add: qq)
  next
    case False
    then have ee: "e = exponent_of x" by (simp add: e_def)
    have lo: "2 powi e \<le> x" using exponent_of_bounds [OF pos] by (simp add: ee)
    have "(2::rat) powi 52 * ?q = 2 powi e"
      using power_int_add [of "2::rat" 52 "e - 52"] by simp
    then have "(of_int (2 ^ 52) :: rat) = 2 powi e / ?q" using q by (simp add: field_simps)
    also have "\<dots> \<le> x / ?q" using lo q by (simp add: divide_right_mono)
    finally have "2 ^ 52 \<le> round_half_even (x / ?q)"
      by (rule round_half_even_ge)
    then have "(of_int (2 ^ 52) :: rat) \<le> of_int (round_half_even (x / ?q))"
      by (simp only: of_int_le_iff)
    then have "of_int (2 ^ 52) * ?q \<le> v"
      unfolding v_def using q by (intro mult_right_mono) simp_all
    moreover have "of_int (2 ^ 52) * ?q = 2 powi e"
      using power_int_add [of "2::rat" 52 "e - 52"] by simp
    moreover have "(2::rat) powi 53 \<le> 2 powi e" using False by (intro two_powi_le) simp
    moreover have "(of_nat n :: rat) < 2 powi 53"
    proof -
      have "(of_nat n :: rat) < of_nat (2 ^ 53)" using n by (simp only: of_nat_less_iff)
      then show ?thesis by simp
    qed
    ultimately show ?thesis by simp
  qed
  then show ?thesis by (simp add: r)
qed

lemma round64_0: "round64 0 = Fin 0"
  by (simp add: round64_def)

lemma round64_24: "round64 24 = Fin 24"
  using round64_of_int [of 24] by simp

text \<open>
  The decimal \<open>1.0833333333333333\<close> is read as the binary64 value above \<open>13 / 12\<close>, and
  24 times that value, which lies half-way between 26 and the next binary64 value, is
  rounded to 26.
\<close>

lemma round64_page_13_12:
  "round64 (10833333333333333 / 10 ^ 16) = Fin (4878899596318037 / 2 ^ 52)"
proof -
  have "round_half_even ((10833333333333333 / 10 ^ 16) / 2 powi (0 - 52)) = 4878899596318037"
    by (rule round_half_even_near) (simp add: power_int_minus)
  with round64_normal [of "10833333333333333 / 10 ^ 16" 0]
  show ?thesis by (simp add: power_int_minus)
qed

lemma round64_page_13_12_times_24:
  "round64 (4878899596318037 / 2 ^ 52 * 24) = Fin 26"
proof -
  have "round_half_even ((4878899596318037 / 2 ^ 52 * 24) / 2 powi (4 - 52))
          = (if even (7318349394477055::int) then 7318349394477055 else 7318349394477055 + 1)"
    by (rule round_half_even_tie) (simp add: power_int_minus)
  then have "round_half_even ((4878899596318037 / 2 ^ 52 * 24) / 2 powi (4 - 52))
          = 7318349394477056" by simp
  with round64_normal [of "4878899596318037 / 2 ^ 52 * 24" 4]
  show ?thesis by (simp add: power_int_minus)
qed


section \<open>Properties of the page of an episodes request\<close>

lemma Math_max_one_cases:
  "Math_max (Fin 1) n = (if n = NaN then NaN else if js_lt (Fin 1) n then n else Fin 1)"
  by (simp add: Math_max_def)

lemma num_or_one: "num_or n (Fin 1) \<noteq> NaN"
  by (cases n) (simp_all add: num_or_def)

lemma js_lt_one_num_or: "js_lt (Fin 1) (num_or n (Fin 1)) = js_lt (Fin 1) n"
  by (cases n) (simp_all add: num_or_def)

lemma lit_nonempty: "lit (c # cs) \<noteq> []"
  by (simp add: lit_def)

lemmas number_parsing_defs =
  StringToNumber_def trim_def is_space_def unsigned_decimal_def lit_def is_digit_def
  digit_in_def integer_literal_def exponent_part_def scale10_def Let_def

lemma StringToNumber_3: "StringToNumber (lit ''3'') = Fin 3"
  by (simp add: number_parsing_defs round64_3)

lemma StringToNumber_minus_2: "StringToNumber (lit ''-2'') = Fin (- 2)"
  by (simp add: number_parsing_defs round64_2)

lemma StringToNumber_2_5: "StringToNumber (lit ''2.5'') = Fin (5 / 2)"
  by (simp add: number_parsing_defs round64_5_2)

lemma not_integer_5_2: "\<not> is_integer (Fin (5 / 2))"
  by code_simp

text \<open>
  Claim C10, as the code has it. The effective page of an episodes request is never \<open>NaN\<close>
  and never below 1. When \<open>Number(req.query.page || 1)\<close> is above 1 the page is that number
  itself, whatever it is (no rounding is applied); in every other case (parameter missing,
  empty, non-numeric, zero, negative, or at most 1) the page is exactly 1.
\<close>

theorem episodes_page_at_least_one:
  "episodes_page q \<noteq> NaN
 \<and> \<not> js_lt (episodes_page q) (Fin 1)
 \<and> (js_lt (Fin 1) (ToNumber (js_or q (JNumber (Fin 1))))
      \<longrightarrow> episodes_page q = ToNumber (js_or q (JNumber (Fin 1))))
 \<and> (\<not> js_lt (Fin 1) (ToNumber (js_or q (JNumber (Fin 1))))
      \<longrightarrow> episodes_page q = Fin 1)"
proof -
  define n where "n = ToNumber (js_or q (JNumber (Fin 1)))"
  have page: "episodes_page q = (if js_lt (Fin 1) n then num_or n (Fin 1) else Fin 1)"
    by (simp add: episodes_page_def n_def Math_max_one_cases num_or_one js_lt_one_num_or)
  have big: "js_lt (Fin 1) n \<Longrightarrow> num_or n (Fin 1) = n"
    by (cases n) (auto simp: num_or_def)
  have nn: "js_lt (Fin 1) n \<Longrightarrow> n \<noteq> NaN \<and> \<not> js_lt n (Fin 1)"
    by (cases n) auto
  show ?thesis
    unfolding n_def [symmetric] page using big nn by auto
qed

theorem episodes_page_at_least_one_witness:
  "episodes_page (JString (lit ''3'')) = Fin 3
 \<and> episodes_page (JString (lit ''-2'')) = Fin 1
 \<and> episodes_page JUndefined = Fin 1"
  using episodes_page_at_least_one [of "JString (lit ''3'')"]
        episodes_page_at_least_one [of "JString (lit ''-2'')"]
        episodes_page_at_least_one [of JUndefined]
  by (simp add: js_or_def lit_nonempty StringToNumber_3 StringToNumber_minus_2)

text \<open>
  The request \<open>?page=2.5\<close> gets the page 2.5, which is not an integer: the page of claim C10
  is not always an integer.
\<close>

theorem episodes_page_fraction:
  "episodes_page (JString (lit ''2.5'')) = Fin (5 / 2)
 \<and> \<not> is_integer (episodes_page (JString (lit ''2.5'')))"
proof -
  have "episodes_page (JString (lit ''2.5'')) = Fin (5 / 2)"
    by (simp add: episodes_page_def js_or_def num_or_def Math_max_def lit_nonempty
        StringToNumber_2_5)
  then show ?thesis
    by (simp only: not_integer_5_2 simp_thms)
qed


section \<open>Properties of the resilient fetcher\<close>

lemma fetchJson_rejected: "up k = Rejected e \<Longrightarrow> fetchJson up k retries = Inl e"
  by (simp add: fetchJson.simps)

lemma fetchJson_unparsable:
  "up k = Response st (Inl e) \<Longrightarrow> is_ok st \<Longrightarrow> fetchJson up k retries = Inl e"
  by (simp add: fetchJson.simps is_ok_def split: nat.splits)

text \<open>The two scenarios of the specification for the retry on status 429.\<close>

lemma fetchJson_retry_scenarios:
  "fetchJson (\<lambda>k. if k < 2 then Response 429 (Inr j0) else Response 200 (Inr j)) 0 2
     = Inr \<lparr>fetched_ok = True, fetched_status = 200, fetched_json = Some j\<rparr>"
  "fetchJson (\<lambda>k. Response 429 (Inr j0)) 0 1
     = Inr \<lparr>fetched_ok = False, fetched_status = 429, fetched_json = None\<rparr>"
  by (simp_all add: fetchJson.simps is_ok_def numeral_2_eq_2)

text \<open>
  The fetcher of the AniList/Anify routes turns every failure into \<open>null\<close>; it has no
  exceptional result at all.
\<close>

lemma fetchJson_anify_failure:
  "fetchJson_anify (Rejected e) = None"
  "\<not> is_ok st \<Longrightarrow> fetchJson_anify (Response st body) = None"
  "fetchJson_anify (Response st (Inl e)) = None"
  by (simp_all add: fetchJson_anify_def)

text \<open>
  Claim C5 says that \<open>fetchJson(url, timeoutMs, maxRetries)\<close> never raises. The fetcher of
  the Jikan routes, the one with the retry count, has \<open>try\<close> and \<open>finally\<close> but no \<open>catch\<close>:
  a network error, an abort after the timeout and a body that does not parse all leave it as
  exceptions. Only a status outside 200 to 299 becomes the negative result \<open>{ok: false}\<close>.
\<close>

theorem fetchJson_raises:
  "fetchJson (\<lambda>k. Rejected NetworkError :: unit outcome) 0 1 = Inl NetworkError
 \<and> fetchJson (\<lambda>k. Rejected AbortError :: unit outcome) 0 1 = Inl AbortError
 \<and> fetchJson (\<lambda>k. Response 200 (Inl SyntaxError) :: unit outcome) 0 1 = Inl SyntaxError
 \<and> fetchJson (\<lambda>k. Response 503 (Inr ())) 0 1
      = Inr \<lparr>fetched_ok = False, fetched_status = 503, fetched_json = None\<rparr>"
  by (simp add: fetchJson.simps is_ok_def)


section \<open>Properties of the choice of a relation\<close>

lemma find_first:
  "P x \<Longrightarrow> \<forall>y\<in>set pre. \<not> P y \<Longrightarrow> find P (pre @ x # post) = Some x"
  by (induction pre) auto

lemma find_none: "\<forall>y\<in>set xs. \<not> P y \<Longrightarrow> find P xs = None"
  by (induction xs) auto

lemma lit_eq_iff: "lit a = lit b \<longleftrightarrow> a = b"
  by (simp add: lit_def inj_map_eq_map inj_on_def)

lemma pickRelation_first_TV:
  assumes "rel_entry r = Some (pre @ x # post)"
    and "entry_type x = JString (lit ''TV'')"
    and "\<forall>y\<in>set pre. entry_type y \<noteq> JString (lit ''TV'')"
  shows "pickRelation (Some r) = Some \<lparr>picked_id = entry_mal_id x, picked_title = entry_name x\<rparr>"
  using assms
  by (simp add: pickRelation_def find_first [where P = "\<lambda>x. entry_type x = JString (lit ''TV'')"])

lemma pickRelation_no_TV:
  assumes "rel_entry r = Some es"
    and "\<forall>y\<in>set es. entry_type y \<noteq> JString (lit ''TV'')"
  shows "pickRelation (Some r) =
           (case es of [] \<Rightarrow> None
            | x # _ \<Rightarrow> Some \<lparr>picked_id = entry_mal_id x, picked_title = entry_name x\<rparr>)"
  using assms
  by (simp add: pickRelation_def find_none [where P = "\<lambda>x. entry_type x = JString (lit ''TV'')"]
      split: list.splits)


lemma pickEdge_first_TV_or_ONA:
  assumes "map edge_node (filter (\<lambda>e. relationType e = JString (lit type)) es)
             = pre @ Some m # post"
    and "node_format m = Some (lit ''TV'') \<or> node_format m = Some (lit ''ONA'')"
    and "\<forall>c\<in>set pre. \<forall>k. c = Some k \<longrightarrow>
           node_format k \<noteq> Some (lit ''TV'') \<and> node_format k \<noteq> Some (lit ''ONA'')"
  shows "pickEdge (Some es) type = Some m"
proof -
  let ?P = "\<lambda>n. case n of None \<Rightarrow> False
                 | Some m \<Rightarrow> node_format m = Some (lit ''TV'') \<or> node_format m = Some (lit ''ONA'')"
  have "?P (Some m)" using assms(2) by simp
  moreover have "\<forall>c\<in>set pre. \<not> ?P c"
    using assms(3) by (auto split: option.splits)
  ultimately have "find ?P (pre @ Some m # post) = Some (Some m)"
    by (rule find_first)
  then show ?thesis
    using assms(1) by (simp add: pickEdge_def)
qed

lemma pickEdge_no_TV_or_ONA:
  assumes "map edge_node (filter (\<lambda>e. relationType e = JString (lit type)) es) = cs"
    and "\<forall>c\<in>set cs. \<forall>k. c = Some k \<longrightarrow>
           node_format k \<noteq> Some (lit ''TV'') \<and> node_format k \<noteq> Some (lit ''ONA'')"
  shows "pickEdge (Some es) type = (case cs of [] \<Rightarrow> None | c # _ \<Rightarrow> c)"
proof -
  let ?P = "\<lambda>n. case n of None \<Rightarrow> False
                 | Some m \<Rightarrow> node_format m = Some (lit ''TV'') \<or> node_format m = Some (lit ''ONA'')"
  have "\<forall>c\<in>set cs. \<not> ?P c"
    using assms(2) by (auto split: option.splits)
  then have "find ?P cs = None"
    by (rule find_none)
  then show ?thesis
    using assms(1) by (simp add: pickEdge_def)
qed

text \<open>
  Claim C8, as the code has it. \<open>pickRelation\<close> (Jikan) chooses the first entry whose type is
  \<open>"TV"\<close>, and the first entry when none is. \<open>pickEdge\<close> (AniList) looks at the nodes of the
  edges of the wanted relation type and chooses the first node whose format is \<open>"TV"\<close> or
  \<open>"ONA"\<close>, and the first candidate when no node has either format.
\<close>

theorem pick_choice:
  "(rel_entry r = Some (pre @ x # post) \<and> entry_type x = JString (lit ''TV'')
      \<and> (\<forall>y\<in>set pre. entry_type y \<noteq> JString (lit ''TV''))
    \<longrightarrow> pickRelation (Some r) = Some \<lparr>picked_id = entry_mal_id x, picked_title = entry_name x\<rparr>)
 \<and> (rel_entry r = Some es \<and> (\<forall>y\<in>set es. entry_type y \<noteq> JString (lit ''TV''))
    \<longrightarrow> pickRelation (Some r) =
          (case es of [] \<Rightarrow> None
           | x # _ \<Rightarrow> Some \<lparr>picked_id = entry_mal_id x, picked_title = entry_name x\<rparr>))
 \<and> (map edge_node (filter (\<lambda>e. relationType e = JString (lit type)) edges) = cpre @ Some m # cpost
      \<and> (node_format m = Some (lit ''TV'') \<or> node_format m = Some (lit ''ONA''))
      \<and> (\<forall>c\<in>set cpre. \<forall>k. c = Some k \<longrightarrow>
             node_format k \<noteq> Some (lit ''TV'') \<and> node_format k \<noteq> Some (lit ''ONA''))
    \<longrightarrow> pickEdge (Some edges) type = Some m)
 \<and> (map edge_node (filter (\<lambda>e. relationType e = JString (lit type)) edges) = cs
      \<and> (\<forall>c\<in>set cs. \<forall>k. c = Some k \<longrightarrow>
             node_format k \<noteq> Some (lit ''TV'') \<and> node_format k \<noteq> Some (lit ''ONA''))
    \<longrightarrow> pickEdge (Some edges) type = (case cs of [] \<Rightarrow> None | c # _ \<Rightarrow> c))"
  using pickRelation_first_TV [of r pre x post] pickRelation_no_TV [of r es]
    pickEdge_first_TV_or_ONA [of type edges cpre m cpost]
    pickEdge_no_TV_or_ONA [of type edges cs]
  by blast

theorem pick_choice_witness:
  "pickRelation (Some (ex_relation ''Prequel'' [ex_entry 1 ''Movie'', ex_entry 2 ''TV'', ex_entry 3 ''TV'']))
     = Some \<lparr>picked_id = 2, picked_title = JString (lit ''T'')\<rparr>
 \<and> pickRelation (Some (ex_relation ''Prequel'' [ex_entry 1 ''Movie'', ex_entry 2 ''OVA'']))
     = Some \<lparr>picked_id = 1, picked_title = JString (lit ''T'')\<rparr>
 \<and> pickEdge (Some [ex_edge ''SEQUEL'' (ex_node 1 ''TV''), ex_edge ''PREQUEL'' (ex_node 2 ''MOVIE''),
                    ex_edge ''PREQUEL'' (ex_node 3 ''TV'')]) ''PREQUEL'' = Some (ex_node 3 ''TV'')
 \<and> pickEdge (Some [ex_edge ''PREQUEL'' (ex_node 1 ''MOVIE''), ex_edge ''PREQUEL'' (ex_node 2 ''OVA'')])
       ''PREQUEL'' = Some (ex_node 1 ''MOVIE'')"
  using pick_choice [where r = "ex_relation ''Prequel'' [ex_entry 1 ''Movie'', ex_entry 2 ''TV'', ex_entry 3 ''TV'']"
      and pre = "[ex_entry 1 ''Movie'']" and x = "ex_entry 2 ''TV''" and post = "[ex_entry 3 ''TV'']"
      and es = "[ex_entry 1 ''Movie'', ex_entry 2 ''TV'', ex_entry 3 ''TV'']"
      and type = "''PREQUEL''"
      and edges = "[ex_edge ''SEQUEL'' (ex_node 1 ''TV''), ex_edge ''PREQUEL'' (ex_node 2 ''MOVIE''),
                    ex_edge ''PREQUEL'' (ex_node 3 ''TV'')]"
      and cpre = "[Some (ex_node 2 ''MOVIE'')]" and m = "ex_node 3 ''TV''" and cpost = "[]"
      and cs = "[Some (ex_node 2 ''MOVIE''), Some (ex_node 3 ''TV'')]"]
    pick_choice [where r = "ex_relation ''Prequel'' [ex_entry 1 ''Movie'', ex_entry 2 ''OVA'']"
      and pre = "[]" and x = "ex_entry 1 ''Movie''" and post = "[ex_entry 2 ''OVA'']"
      and es = "[ex_entry 1 ''Movie'', ex_entry 2 ''OVA'']"
      and type = "''PREQUEL''"
      and edges = "[ex_edge ''PREQUEL'' (ex_node 1 ''MOVIE''), ex_edge ''PREQUEL'' (ex_node 2 ''OVA'')]"
      and cpre = "[]" and m = "ex_node 1 ''MOVIE''" and cpost = "[Some (ex_node 2 ''OVA'')]"
      and cs = "[Some (ex_node 1 ''MOVIE''), Some (ex_node 2 ''OVA'')]"]
  by (simp add: ex_relation_def ex_entry_def ex_edge_def ex_node_def lit_eq_iff)

text \<open>
  Against claim C8 as stated: among the prequel candidates ONA (id 1) and TV (id 2),
  \<open>pickEdge\<close> chooses the ONA node although a TV candidate exists; among MOVIE (id 1) and
  ONA (id 2), where no candidate is TV, it chooses the second candidate, not the first.
\<close>

theorem pickEdge_takes_ONA:
  "pickEdge (Some [ex_edge ''PREQUEL'' (ex_node 1 ''ONA''), ex_edge ''PREQUEL'' (ex_node 2 ''TV'')])
     ''PREQUEL'' = Some (ex_node 1 ''ONA'')
 \<and> ex_node 1 ''ONA'' \<noteq> ex_node 2 ''TV''
 \<and> pickEdge (Some [ex_edge ''PREQUEL'' (ex_node 1 ''MOVIE''), ex_edge ''PREQUEL'' (ex_node 2 ''ONA'')])
     ''PREQUEL'' = Some (ex_node 2 ''ONA'')
 \<and> ex_node 2 ''ONA'' \<noteq> ex_node 1 ''MOVIE''"
  by (simp add: pickEdge_def ex_edge_def ex_node_def lit_eq_iff)


section \<open>Properties of the season chains\<close>

lemma walk_back_length:
  "walk_back jikan n node w = Inr w' \<Longrightarrow> length (ids w') \<le> length (ids w) + n"
proof (induction n arbitrary: node w)
  case 0
  then show ?case by simp
next
  case (Suc n)
  show ?case
  proof (cases "pickRelation (find_relation node ''Prequel'')")
    case None
    with Suc.prems show ?thesis by simp
  next
    case (Some pre)
    show ?thesis
    proof (cases "picked_id pre \<in> seen w")
      case True
      with Some Suc.prems show ?thesis by simp
    next
      case False
      let ?w1 = "w\<lparr>seen := insert (picked_id pre) (seen w), ids := ids w @ [picked_id pre]\<rparr>"
      show ?thesis
      proof (cases "fetchByMal jikan (picked_id pre)")
        case (Inl e)
        with Some False Suc.prems show ?thesis by (simp add: Let_def)
      next
        case (Inr full)
        show ?thesis
        proof (cases full)
          case None
          with Inr Some False Suc.prems show ?thesis by (auto simp: Let_def)
        next
          case (Some f)
          with Inr \<open>pickRelation _ = Some pre\<close> False Suc.prems
          have "walk_back jikan n f (?w1\<lparr>titles := (titles ?w1)(picked_id pre \<mapsto> title_of f)\<rparr>) = Inr w'"
            by (simp add: Let_def)
          from Suc.IH [OF this] show ?thesis by simp
        qed
      qed
    qed
  qed
qed

lemma walk_forward_length:
  "walk_forward jikan n node w = Inr w' \<Longrightarrow> length (ids w') \<le> length (ids w) + n"
proof (induction n arbitrary: node w)
  case 0
  then show ?case by simp
next
  case (Suc n)
  show ?case
  proof (cases "pickRelation (find_relation node ''Sequel'')")
    case None
    with Suc.prems show ?thesis by simp
  next
    case (Some sq)
    show ?thesis
    proof (cases "picked_id sq \<in> seen w")
      case True
      with Some Suc.prems show ?thesis by simp
    next
      case False
      let ?w1 = "w\<lparr>seen := insert (picked_id sq) (seen w)\<rparr>"
      show ?thesis
      proof (cases "fetchByMal jikan (picked_id sq)")
        case (Inl e)
        with Some False Suc.prems show ?thesis by (simp add: Let_def)
      next
        case (Inr full)
        show ?thesis
        proof (cases full)
          case None
          with Inr Some False Suc.prems show ?thesis by (auto simp: Let_def)
        next
          case (Some f)
          with Inr \<open>pickRelation _ = Some sq\<close> False Suc.prems
          have "walk_forward jikan n f
                  (?w1\<lparr>titles := (titles ?w1)(picked_id sq \<mapsto> title_of f),
                        ids := ids ?w1 @ [picked_id sq]\<rparr>) = Inr w'"
            by (simp add: Let_def)
          from Suc.IH [OF this] show ?thesis by simp
        qed
      qed
    qed
  qed
qed

lemma buildSeasonsChain_length:
  assumes "buildSeasonsChain jikan startData = Inr c"
  shows "length (chain_ids c) \<le> 17"
proof -
  let ?w0 = "\<lparr>seen = {}, titles = [mal_id startData \<mapsto> title_of startData], ids = []\<rparr>"
  from assms obtain wb where wb: "walk_back jikan 8 startData ?w0 = Inr wb"
    by (auto simp: buildSeasonsChain_def Let_def split: sum.splits)
  with assms obtain w2 where
    w2: "walk_forward jikan 8 startData (wb\<lparr>ids := rev (ids wb) @ [mal_id startData]\<rparr>) = Inr w2"
    and c: "c = \<lparr>chain_ids = ids w2, chain_titles = titles w2\<rparr>"
    by (auto simp: buildSeasonsChain_def Let_def split: sum.splits)
  from walk_back_length [OF wb] have "length (ids wb) \<le> 8" by simp
  moreover from walk_forward_length [OF w2] have "length (ids w2) \<le> length (ids wb) + 1 + 8"
    by simp
  ultimately show ?thesis using c by simp
qed

lemma info_walk_loop_inv:
  assumes "info_walk_loop anilist type n node w = Inr w'"
    and "info_inv w"
  shows "info_inv w'
       \<and> length (info_nodes w') \<le> length (info_nodes w) + n
       \<and> set (info_nodes w) \<subseteq> set (info_nodes w')
       \<and> info_seen w \<subseteq> info_seen w'
       \<and> (\<forall>k. k \<in> info_seen w \<and> k \<notin> node_id ` set (info_nodes w)
              \<longrightarrow> k \<notin> node_id ` set (info_nodes w'))"
  using assms
proof (induction n arbitrary: node w)
  case 0
  then show ?case by simp
next
  case (Suc n)
  show ?case
  proof (cases "pickEdge (relations_edges node) type")
    case None
    with Suc.prems show ?thesis by simp
  next
    case (Some nxt)
    show ?thesis
    proof (cases "node_id nxt \<in> info_seen w")
      case True
      with Some Suc.prems show ?thesis by simp
    next
      case False
      let ?w1 = "\<lparr>info_seen = insert (node_id nxt) (info_seen w),
                  info_nodes = info_nodes w @ [nxt]\<rparr>"
      have inv1: "info_inv ?w1"
        using Suc.prems(2) False by (auto simp: info_inv_def)
      have step: "info_inv ?w1
       \<and> length (info_nodes ?w1) \<le> length (info_nodes w) + Suc n
       \<and> set (info_nodes w) \<subseteq> set (info_nodes ?w1)
       \<and> info_seen w \<subseteq> info_seen ?w1
       \<and> (\<forall>k. k \<in> info_seen w \<and> k \<notin> node_id ` set (info_nodes w)
              \<longrightarrow> k \<notin> node_id ` set (info_nodes ?w1))"
        using inv1 False by auto
      show ?thesis
      proof (cases "anilist (node_id nxt)")
        case (Inl e)
        with Some False Suc.prems(1) show ?thesis by (simp add: Let_def)
      next
        case (Inr full)
        show ?thesis
        proof (cases full)
          case None
          with Inr Some False Suc.prems(1) have "w' = ?w1" by (simp add: Let_def)
          with step show ?thesis by simp
        next
          case (Some f)
          with Inr \<open>pickEdge _ _ = Some nxt\<close> False Suc.prems(1)
          have "info_walk_loop anilist type n f ?w1 = Inr w'"
            by (simp add: Let_def)
          from Suc.IH [OF this inv1] step show ?thesis by auto
        qed
      qed
    qed
  qed
qed

lemma info_chain_distinct:
  assumes "info_chain anilist start = Inr chain"
  shows "distinct (map node_id chain) \<and> length chain \<le> 7 \<and> media_core start \<in> set chain"
proof -
  let ?s = "node_id (media_core start)"
  let ?w0 = "\<lparr>info_seen = {?s}, info_nodes = []\<rparr>"
  from assms obtain wb where wb: "info_walk_loop anilist ''PREQUEL'' 3 start ?w0 = Inr wb"
    by (auto simp: info_chain_def split: sum.splits)
  let ?w1 = "\<lparr>info_seen = info_seen wb, info_nodes = rev (info_nodes wb) @ [media_core start]\<rparr>"
  from assms wb obtain w2 where
    w2: "info_walk_loop anilist ''SEQUEL'' 3 start ?w1 = Inr w2" and chain: "chain = info_nodes w2"
    by (auto simp: info_chain_def split: sum.splits)
  have inv0: "info_inv ?w0"
    by (simp add: info_inv_def)
  from info_walk_loop_inv [OF wb inv0]
  have b: "info_inv wb" "length (info_nodes wb) \<le> 3" "?s \<notin> node_id ` set (info_nodes wb)"
    and seen_mono: "?s \<in> info_seen wb"
    by simp_all
  have inv1: "info_inv ?w1"
    using b seen_mono by (auto simp: info_inv_def rev_map [symmetric])
  from info_walk_loop_inv [OF w2 inv1]
  have f: "info_inv w2" "length (info_nodes w2) \<le> length (info_nodes wb) + 1 + 3"
    "media_core start \<in> set (info_nodes w2)"
    by simp_all
  show ?thesis
    using f b chain by (auto simp: info_inv_def)
qed

lemma pick_cyc:
  "pickRelation (find_relation (cyc_anime i p) ''Prequel'')
     = Some \<lparr>picked_id = p, picked_title = JString (lit ''T'')\<rparr>"
  by (simp add: pickRelation_def find_relation_def cyc_anime_def ex_relation_def ex_entry_def)

lemma pick_cyc_seq: "pickRelation (find_relation (cyc_anime i p) ''Sequel'') = None"
  by (simp add: pickRelation_def find_relation_def cyc_anime_def ex_relation_def lit_eq_iff)

lemma fetch_cyc:
  "fetchByMal cyc_jikan 1 = Inr (Some (cyc_anime 1 2))"
  "fetchByMal cyc_jikan 2 = Inr (Some (cyc_anime 2 1))"
  by (simp_all add: fetchByMal_def cyc_jikan_def is_ok_def)

lemma mal_id_cyc: "mal_id (cyc_anime i p) = i"
  by (simp add: cyc_anime_def)

text \<open>
  Claim C2 says that the visited set starts as \<open>{S.id}\<close>, so that the ids of a chain are
  pairwise distinct on every graph. \<open>getInfo\<close> of the AniList routes does so
  (\<open>info_chain_distinct\<close>). \<open>buildSeasonsChain\<close> of the Jikan routes starts from the empty set:
  on the cycle of two it walks back from 1 to 2 and then to 1 again, and returns the ids
  1, 2, 1. Its chains have at most 17 ids all the same (\<open>buildSeasonsChain_length\<close>).
\<close>

theorem buildSeasonsChain_cycle:
  "map_sum (\<lambda>e. e) chain_ids (buildSeasonsChain cyc_jikan (cyc_anime 1 2)) = Inr [1, 2, 1]
 \<and> \<not> distinct [1, 2, 1 :: int]"
  by (simp add: buildSeasonsChain_def numeral_nat pick_cyc pick_cyc_seq fetch_cyc Let_def
      mal_id_cyc)


section \<open>Properties of the episode reconciler\<close>

lemma js_lt_irrefl: "\<not> js_lt a a"
  by (cases a) simp_all

lemma js_lt_trans: "js_lt a b \<Longrightarrow> js_lt b c \<Longrightarrow> js_lt a c"
  by (cases a; cases b; cases c) simp_all

lemma js_lt_total: "a \<noteq> NaN \<Longrightarrow> b \<noteq> NaN \<Longrightarrow> a \<noteq> b \<Longrightarrow> js_lt a b \<or> js_lt b a"
  by (cases a; cases b) auto

lemma positive_js_sub: "js_lt (Fin 0) (js_sub a b) = js_lt b a"
  by (cases a; cases b) (simp_all add: js_sub_def)

lemma set_sort_insert: "set (sort_insert cmp x ys) = insert x (set ys)"
  by (induction ys) auto

lemma set_Array_sort: "set (Array_sort cmp xs) = set xs"
  by (induction xs) (simp_all add: Array_sort_def set_sort_insert)

lemma length_sort_insert: "length (sort_insert cmp x ys) = Suc (length ys)"
  by (induction ys) auto

lemma length_Array_sort: "length (Array_sort cmp xs) = length xs"
  by (induction xs) (simp_all add: Array_sort_def length_sort_insert)

lemma sorted_sort_insert:
  assumes "sorted_wrt (\<lambda>a b. js_lt (e_number a) (e_number b)) ys"
    and "e_number x \<noteq> NaN"
    and "\<forall>y\<in>set ys. e_number y \<noteq> NaN \<and> e_number y \<noteq> e_number x"
  shows "sorted_wrt (\<lambda>a b. js_lt (e_number a) (e_number b)) (sort_insert by_number x ys)"
  using assms
proof (induction ys)
  case Nil
  then show ?case by simp
next
  case (Cons y ys)
  show ?case
  proof (cases "js_lt (e_number y) (e_number x)")
    case True
    with Cons show ?thesis
      by (auto simp: by_number_def positive_js_sub set_sort_insert)
  next
    case False
    with Cons.prems have xy: "js_lt (e_number x) (e_number y)"
      using js_lt_total [of "e_number x" "e_number y"] by auto
    with Cons.prems False show ?thesis
      by (auto simp: by_number_def positive_js_sub intro: js_lt_trans)
  qed
qed

lemma sorted_Array_sort:
  assumes "distinct (map e_number xs)" and "\<forall>x\<in>set xs. e_number x \<noteq> NaN"
  shows "sorted_wrt (\<lambda>a b. js_lt (e_number a) (e_number b)) (Array_sort by_number xs)"
  using assms
proof (induction xs)
  case Nil
  then show ?case by (simp add: Array_sort_def)
next
  case (Cons x xs)
  then have "sorted_wrt (\<lambda>a b. js_lt (e_number a) (e_number b)) (Array_sort by_number xs)"
    by simp
  moreover have "\<forall>y\<in>set (Array_sort by_number xs). e_number y \<noteq> NaN \<and> e_number y \<noteq> e_number x"
    using Cons.prems by (auto simp: set_Array_sort image_iff)
  ultimately have "sorted_wrt (\<lambda>a b. js_lt (e_number a) (e_number b))
                     (sort_insert by_number x (Array_sort by_number xs))"
    using Cons.prems by (intro sorted_sort_insert) simp_all
  then show ?case by (simp add: Array_sort_def)
qed

lemma sorted_wrt_js_lt_distinct:
  "sorted_wrt (\<lambda>a b. js_lt (f a) (f b)) xs \<Longrightarrow> distinct (map f xs)"
  by (induction xs) (auto simp: js_lt_irrefl)

lemma map_set_absent: "\<not> map_has m k \<Longrightarrow> map_set m k v = m @ [(k, v)]"
  by (induction m) (auto simp: map_has_def)

lemma add_episodes_inv: "map_inv m \<Longrightarrow> map_inv (add_episodes ids_id eps m)"
proof (induction eps arbitrary: m)
  case Nil
  then show ?case by simp
next
  case (Cons ep eps)
  show ?case
  proof (cases "\<not> truthy_num (episode_num ep) \<or> map_has m (episode_num ep)")
    case True
    with Cons show ?thesis by (simp add: Let_def)
  next
    case False
    then have "map_inv (map_set m (episode_num ep) (episode_record ids_id ep (episode_num ep)))"
      using Cons.prems
      by (auto simp: map_set_absent map_inv_def map_has_def episode_record_def)
    from Cons.IH [OF this] False show ?thesis by (simp add: Let_def)
  qed
qed

lemma add_providers_inv: "map_inv m \<Longrightarrow> map_inv (add_providers ids_id provs m)"
  by (induction provs arbitrary: m) (simp_all add: Let_def add_episodes_inv)

lemma map_inv_values:
  assumes "map_inv m"
  shows "distinct (map e_number (map_values m))" and "\<forall>x\<in>set (map_values m). truthy_num (e_number x)"
proof -
  have "map e_number (map_values m) = map fst m"
    using assms by (auto simp: map_inv_def map_values_def)
  then show "distinct (map e_number (map_values m))"
    using assms by (simp add: map_inv_def)
  show "\<forall>x\<in>set (map_values m). truthy_num (e_number x)"
    using assms by (auto simp: map_inv_def map_values_def)
qed

lemma truthy_num_not_NaN: "truthy_num n \<Longrightarrow> n \<noteq> NaN"
  by (cases n) simp_all

text \<open>
  Claim C1. Whatever providers are given, in whatever order and with whatever duplication of
  numbers, the reconciled list is strictly ascending by number (in the order \<open><\<close> of
  JavaScript numbers), and no two of its records have the same number.
\<close>

theorem reconcile_strictly_ascending:
  "sorted_wrt (\<lambda>a b. js_lt (e_number a) (e_number b)) (reconcile ids_id providers)
 \<and> distinct (map e_number (reconcile ids_id providers))"
proof -
  let ?m = "add_providers ids_id (Array_sort by_preference providers) []"
  have "map_inv ?m"
    by (rule add_providers_inv) (simp add: map_inv_def)
  from map_inv_values [OF this]
  have "sorted_wrt (\<lambda>a b. js_lt (e_number a) (e_number b)) (Array_sort by_number (map_values ?m))"
    by (intro sorted_Array_sort) (auto dest: truthy_num_not_NaN)
  then have "sorted_wrt (\<lambda>a b. js_lt (e_number a) (e_number b)) (reconcile ids_id providers)"
    by (simp add: reconcile_def Let_def)
  then show ?thesis
    by (simp add: sorted_wrt_js_lt_distinct)
qed

text \<open>
  The providers are processed in the stable order of \<open>preferred.indexOf(providerId)\<close>, where
  a provider that is not in \<open>preferred\<close> has index -1.
\<close>

lemma sort_insert_by_preference:
  "sort_insert by_preference x ys = insort_key (\<lambda>p. indexOf preferred (providerId p)) x ys"
  by (induction ys) (auto simp: by_preference_def)

lemma Array_sort_by_preference:
  "Array_sort by_preference ps = sort_key (\<lambda>p. indexOf preferred (providerId p)) ps"
  by (induction ps) (simp_all add: Array_sort_def sort_insert_by_preference)

lemma indexOf_from_range:
  "indexOf_from xs v i = - 1 \<or> (i \<le> indexOf_from xs v i \<and> indexOf_from xs v i < i + int (length xs))"
  by (induction xs v i rule: indexOf_from.induct) auto

lemma indexOf_from_unknown:
  "0 \<le> i \<Longrightarrow> indexOf_from xs v i = - 1 \<longleftrightarrow> v \<notin> set (map (\<lambda>x. JString (lit x)) xs)"
proof (induction xs v i rule: indexOf_from.induct)
  case (1 v i)
  then show ?case by simp
next
  case (2 x xs v i)
  then show ?case by auto
qed

lemma indexOf_unknown: "indexOf xs v = - 1 \<longleftrightarrow> v \<notin> set (map (\<lambda>x. JString (lit x)) xs)"
  by (simp add: indexOf_def indexOf_from_unknown del: set_map)

text \<open>
  First seen wins: the record kept for a number is made from the first episode, in
  processing order, that has this number.
\<close>

lemma map_has_map_of: "map_has m k \<longleftrightarrow> map_of m k \<noteq> None"
  by (simp add: map_has_def map_of_eq_None_iff)

lemma add_episodes_first_wins:
  "map_of (add_episodes ids_id eps m) k =
     (case map_of m k of
        Some v \<Rightarrow> Some v
      | None \<Rightarrow>
          if truthy_num k
          then map_option (\<lambda>ep. episode_record ids_id ep k) (find (\<lambda>ep. episode_num ep = k) eps)
          else None)"
proof (induction eps arbitrary: m)
  case Nil
  then show ?case by (simp split: option.splits)
next
  case (Cons ep eps)
  show ?case
  proof (cases "\<not> truthy_num (episode_num ep) \<or> map_has m (episode_num ep)")
    case True
    then show ?thesis
      by (auto simp: Let_def Cons.IH map_has_map_of split: option.splits)
  next
    case False
    then have "map_set m (episode_num ep) (episode_record ids_id ep (episode_num ep))
                 = m @ [(episode_num ep, episode_record ids_id ep (episode_num ep))]"
      by (simp add: map_set_absent)
    with False show ?thesis
      by (auto simp: Let_def Cons.IH map_has_map_of map_add_def split: option.splits)
  qed
qed

lemma add_providers_all_episodes:
  "add_providers ids_id provs m = add_episodes ids_id (all_episodes provs) m"
proof -
  have app: "\<And>xs ys m. add_episodes ids_id (xs @ ys) m = add_episodes ids_id ys (add_episodes ids_id xs m)"
  proof -
    fix xs ys m
    show "add_episodes ids_id (xs @ ys) m = add_episodes ids_id ys (add_episodes ids_id xs m)"
      by (induction xs arbitrary: m) (simp_all add: Let_def)
  qed
  show ?thesis
    by (induction provs arbitrary: m) (simp_all add: all_episodes_def Let_def app)
qed

lemma reconcile_first_seen_wins:
  "e \<in> set (reconcile ids_id providers) \<longleftrightarrow>
     truthy_num (e_number e) \<and>
     (\<exists>ep. find (\<lambda>r. episode_num r = e_number e) (all_episodes (Array_sort by_preference providers))
              = Some ep
          \<and> e = episode_record ids_id ep (e_number e))"
proof -
  let ?m = "add_providers ids_id (Array_sort by_preference providers) []"
  have inv: "map_inv ?m"
    by (rule add_providers_inv) (simp add: map_inv_def)
  have "e \<in> set (reconcile ids_id providers) \<longleftrightarrow> e \<in> snd ` set ?m"
    by (simp add: reconcile_def Let_def set_Array_sort map_values_def)
  also have "\<dots> \<longleftrightarrow> map_of ?m (e_number e) = Some e"
  proof
    assume "e \<in> snd ` set ?m"
    then obtain k where "(k, e) \<in> set ?m" by auto
    moreover from this inv have "e_number e = k" by (auto simp: map_inv_def)
    ultimately show "map_of ?m (e_number e) = Some e"
      using inv by (simp add: map_inv_def)
  next
    assume "map_of ?m (e_number e) = Some e"
    then have "(e_number e, e) \<in> set ?m" by (rule map_of_SomeD)
    then show "e \<in> snd ` set ?m" by force
  qed
  also have "\<dots> \<longleftrightarrow> truthy_num (e_number e) \<and>
     (\<exists>ep. find (\<lambda>r. episode_num r = e_number e) (all_episodes (Array_sort by_preference providers))
              = Some ep
          \<and> e = episode_record ids_id ep (e_number e))"
    by (auto simp: add_providers_all_episodes add_episodes_first_wins)
  finally show ?thesis .
qed

text \<open>
  The scenario of the specification, with \<open>gogoanime\<close> and \<open>zoro\<close> as the providers A and B.
\<close>

lemma reconcile_example:
  "reconcile ids_id
     [mk_prov ''gogoanime'' [mk_ep 1 ''a1'', mk_ep 2 ''a2''],
      mk_prov ''zoro'' [mk_ep 2 ''b2'', mk_ep 3 ''b3'']]
   = [\<lparr>e_id = StringOf (JString (lit ''a1'')), e_number = Fin 1, e_title = JUndefined\<rparr>,
      \<lparr>e_id = StringOf (JString (lit ''a2'')), e_number = Fin 2, e_title = JUndefined\<rparr>,
      \<lparr>e_id = StringOf (JString (lit ''b3'')), e_number = Fin 3, e_title = JUndefined\<rparr>]"
  by (simp add: reconcile_def Array_sort_def by_preference_def indexOf_def preferred_def
      mk_prov_def mk_ep_def lit_eq_iff Let_def episode_num_def map_has_def episode_record_def
      js_or_def map_values_def by_number_def js_sub_def)

text \<open>
  Claim C4 ranks a provider that is not in the preference order after all known providers.
  \<open>indexOf\<close> gives such a provider the index -1, below the index 0 of \<open>gogoanime\<close>, so it
  is processed first and its record for a number is the one kept: with \<open>gogoanime\<close> and an
  unknown provider both supplying episode 1, the output carries the unknown provider's id.
\<close>

theorem reconcile_unknown_provider_first:
  "indexOf preferred (JString (lit ''gogoanime'')) = 0
 \<and> indexOf preferred (JString (lit ''mystery'')) = - 1
 \<and> Array_sort by_preference
       [mk_prov ''gogoanime'' [mk_ep 1 ''g1''], mk_prov ''mystery'' [mk_ep 1 ''m1'']]
     = [mk_prov ''mystery'' [mk_ep 1 ''m1''], mk_prov ''gogoanime'' [mk_ep 1 ''g1'']]
 \<and> reconcile ids_id
       [mk_prov ''gogoanime'' [mk_ep 1 ''g1''], mk_prov ''mystery'' [mk_ep 1 ''m1'']]
     = [\<lparr>e_id = StringOf (JString (lit ''m1'')), e_number = Fin 1, e_title = JUndefined\<rparr>]"
  by (simp add: reconcile_def Array_sort_def by_preference_def indexOf_def preferred_def
      mk_prov_def mk_ep_def lit_eq_iff Let_def episode_num_def map_has_def episode_record_def
      js_or_def map_values_def by_number_def js_sub_def)


section \<open>Properties of the pagination\<close>

lemma Math_max_of_int: "Math_max (Fin 1) (Fin (of_int c)) = Fin (of_int (max 1 c))"
  by (simp add: Math_max_def max_def)

lemma episodes_page_cases:
  "episodes_page q = PosInf \<or> (\<exists>r. episodes_page q = Fin r \<and> 1 \<le> r)"
proof -
  define n where "n = ToNumber (js_or q (JNumber (Fin 1)))"
  have "episodes_page q = (if js_lt (Fin 1) n then num_or n (Fin 1) else Fin 1)"
    by (simp add: episodes_page_def n_def Math_max_one_cases num_or_one js_lt_one_num_or)
  then show ?thesis
    by (cases n) (auto simp: num_or_def)
qed

lemma ceiling_pages_pos: "0 < n \<Longrightarrow> 1 \<le> \<lceil>(of_nat n :: rat) / of_nat perPage\<rceil>"
  by (simp add: perPage_def)

lemma ceiling_of_nat_div: "\<lceil>(of_nat n :: rat) / of_nat p\<rceil> = - (- int n div int p)"
  using ceiling_divide_eq_div [of "int n" "int p", where ?'a = rat] by simp

lemma episodes_page_undefined: "episodes_page JUndefined = Fin 1"
  by (simp add: episodes_page_def js_or_def num_or_def Math_max_def)

lemma has_next_rounded:
  "js_lt (fl (js_mul (episodes_page q) (Fin (of_nat perPage)))) (Fin (of_nat n)) \<longleftrightarrow>
     (\<exists>r. episodes_page q = Fin r \<and> js_lt (round64 (r * of_nat perPage)) (Fin (of_nat n)))"
  using episodes_page_cases [of q] by (auto simp: perPage_def)

lemma has_next_below:
  assumes "n < 2 ^ 32" and "js_lt (round64 (r * of_nat perPage)) (Fin (of_nat n))"
  shows "r * of_nat perPage < of_nat n"
proof (rule ccontr)
  assume "\<not> r * of_nat perPage < of_nat n"
  then have "of_nat n \<le> r * of_nat perPage" by simp
  moreover have "n < 2 ^ 53" using assms(1) by simp
  ultimately have "\<not> js_lt (round64 (r * of_nat perPage)) (Fin (of_nat n))"
    by (intro round64_ge_nat)
  with assms(2) show False by simp
qed

lemma has_next_integer:
  assumes n: "n < 2 ^ 32" and i: "of_int \<lfloor>r\<rfloor> = r" and lt: "r * of_nat perPage < of_nat n"
    and r: "1 \<le> r"
  shows "js_lt (round64 (r * of_nat perPage)) (Fin (of_nat n))"
proof -
  define k where "k = \<lfloor>r\<rfloor>"
  have rk: "r = of_int k" using i [symmetric] by (simp only: k_def)
  have k1: "1 \<le> k" using r by (simp add: rk)
  have "(of_int (k * int perPage) :: rat) < of_int (int n)" using lt by (simp add: rk)
  then have "k * int perPage < int n" by (simp only: of_int_less_iff)
  then have "\<bar>k * int perPage\<bar> < 2 ^ 53" using n k1 by (simp add: perPage_def)
  from round64_of_int [OF this]
  have "round64 (r * of_nat perPage) = Fin (r * of_nat perPage)" by (simp add: rk)
  with lt show ?thesis by simp
qed

lemma last_visible_rounded:
  assumes "n < 2 ^ 32"
  shows "Math_max (Fin 1) (Math_ceil (fl (Fin (of_nat n / of_nat perPage))))
           = Fin (of_int (max 1 \<lceil>(of_nat n :: rat) / of_nat perPage\<rceil>))"
proof -
  from ceiling_round64_div [OF assms] obtain v
    where v: "round64 (of_nat n / 24) = Fin v" "\<lceil>v\<rceil> = \<lceil>(of_nat n :: rat) / 24\<rceil>" by blast
  then show ?thesis by (simp add: perPage_def Math_max_of_int)
qed

text \<open>
  Claim C7, as the code has it. \<open>total\<close> is the number of reconciled episodes (of entries
  of the provider's array in the Jikan routes) and \<open>page\<close> the effective page.
  \<open>has_next_page\<close> is \<open>total > page * 24\<close> with the product rounded to binary64: it is false
  for the page \<open>Infinity\<close>, it holds only if \<open>total\<close> exceeds the exact product, and for an
  integer page it is \<open>total > page * 24\<close> exactly. \<open>last_visible_page\<close> is
  \<open>max(1, ceil(total / 24))\<close>: it is \<open>ceil(total / 24)\<close> whenever \<open>total\<close> is positive, and 1
  for no episodes. \<open>total\<close> is the length of an array, below \<open>2 ^ 32\<close>.
\<close>

theorem pagination_fields:
  "page (payload_pagination (getEpisodes_payload q ids_id providers)) = episodes_page q
 \<and> items_total (payload_pagination (getEpisodes_payload q ids_id providers))
      = length (reconcile ids_id providers)
 \<and> (has_next_page (payload_pagination (getEpisodes_payload q ids_id providers)) \<longleftrightarrow>
      (\<exists>r. episodes_page q = Fin r
          \<and> js_lt (round64 (r * of_nat perPage))
               (Fin (of_nat (length (reconcile ids_id providers))))))
 \<and> (length (reconcile ids_id providers) < 2 ^ 32
      \<and> has_next_page (payload_pagination (getEpisodes_payload q ids_id providers)) \<longrightarrow>
      (\<exists>r. episodes_page q = Fin r
          \<and> r * of_nat perPage < of_nat (length (reconcile ids_id providers))))
 \<and> (length (reconcile ids_id providers) < 2 ^ 32 \<and> is_integer (episodes_page q) \<longrightarrow>
      (has_next_page (payload_pagination (getEpisodes_payload q ids_id providers)) \<longleftrightarrow>
        (\<exists>r. episodes_page q = Fin r
            \<and> r * of_nat perPage < of_nat (length (reconcile ids_id providers)))))
 \<and> (length (reconcile ids_id providers) < 2 ^ 32 \<longrightarrow>
      last_visible_page (payload_pagination (getEpisodes_payload q ids_id providers))
        = Fin (of_int (max 1 \<lceil>(of_nat (length (reconcile ids_id providers)) :: rat) / of_nat perPage\<rceil>)))
 \<and> (0 < length (reconcile ids_id providers) \<and> length (reconcile ids_id providers) < 2 ^ 32 \<longrightarrow>
      last_visible_page (payload_pagination (getEpisodes_payload q ids_id providers))
        = Fin (of_int \<lceil>(of_nat (length (reconcile ids_id providers)) :: rat) / of_nat perPage\<rceil>))
 \<and> (has_next_page (fallback_pagination (episodes_page q) n) \<longleftrightarrow>
      (\<exists>r. episodes_page q = Fin r \<and> js_lt (round64 (r * of_nat perPage)) (Fin (of_nat n))))
 \<and> (n < 2 ^ 32 \<and> has_next_page (fallback_pagination (episodes_page q) n) \<longrightarrow>
      (\<exists>r. episodes_page q = Fin r \<and> r * of_nat perPage < of_nat n))
 \<and> (n < 2 ^ 32 \<and> is_integer (episodes_page q) \<longrightarrow>
      (has_next_page (fallback_pagination (episodes_page q) n) \<longleftrightarrow>
        (\<exists>r. episodes_page q = Fin r \<and> r * of_nat perPage < of_nat n)))
 \<and> (0 < n \<and> n < 2 ^ 32 \<longrightarrow>
      last_visible_page (fallback_pagination (episodes_page q) n)
        = Fin (of_int \<lceil>(of_nat n :: rat) / of_nat perPage\<rceil>))"
proof -
  let ?p = "payload_pagination (getEpisodes_payload q ids_id providers)"
  let ?f = "fallback_pagination (episodes_page q) n"
  let ?n = "length (reconcile ids_id providers)"
  let ?rounded = "\<lambda>k. \<exists>r. episodes_page q = Fin r
      \<and> js_lt (round64 (r * of_nat perPage)) (Fin (of_nat k))"
  let ?exact = "\<lambda>k. \<exists>r. episodes_page q = Fin r \<and> r * of_nat perPage < of_nat k"
  have m: "0 < k \<Longrightarrow> max 1 \<lceil>(of_nat k :: rat) / of_nat perPage\<rceil>
             = \<lceil>(of_nat k :: rat) / of_nat perPage\<rceil>" for k
    using ceiling_pages_pos [of k] by simp
  have below: "k < 2 ^ 32 \<Longrightarrow> ?rounded k \<Longrightarrow> ?exact k" for k
    using has_next_below by blast
  have above: "k < 2 ^ 32 \<Longrightarrow> is_integer (episodes_page q) \<Longrightarrow> ?exact k \<Longrightarrow> ?rounded k" for k
  proof -
    assume k: "k < 2 ^ 32" and i: "is_integer (episodes_page q)" and "?exact k"
    then obtain r where r: "episodes_page q = Fin r" "r * of_nat perPage < of_nat k" by blast
    from r(1) episodes_page_cases [of q] have "1 \<le> r" by simp
    moreover from i r(1) have "of_int \<lfloor>r\<rfloor> = r" by simp
    ultimately have "js_lt (round64 (r * of_nat perPage)) (Fin (of_nat k))"
      using k r(2) by (intro has_next_integer)
    with r(1) show "?rounded k" by blast
  qed
  have p1: "page ?p = episodes_page q" and p2: "items_total ?p = ?n"
    by (simp_all add: getEpisodes_payload_def paginate_def Let_def)
  have p3: "has_next_page ?p \<longleftrightarrow> ?rounded ?n"
    by (simp add: getEpisodes_payload_def paginate_def Let_def has_next_rounded
        del: fl.simps js_mul.simps js_lt.simps)
  have p4: "?n < 2 ^ 32 \<and> has_next_page ?p \<longrightarrow> ?exact ?n"
    using p3 below [of ?n] by blast
  have p5: "?n < 2 ^ 32 \<and> is_integer (episodes_page q) \<longrightarrow> (has_next_page ?p \<longleftrightarrow> ?exact ?n)"
    using p3 below [of ?n] above [of ?n] by blast
  have p6: "?n < 2 ^ 32 \<longrightarrow> last_visible_page ?p
      = Fin (of_int (max 1 \<lceil>(of_nat ?n :: rat) / of_nat perPage\<rceil>))"
    by (simp add: getEpisodes_payload_def paginate_def Let_def last_visible_rounded
        del: Math_ceil.simps fl.simps)
  have p7: "0 < ?n \<and> ?n < 2 ^ 32 \<longrightarrow>
      last_visible_page ?p = Fin (of_int \<lceil>(of_nat ?n :: rat) / of_nat perPage\<rceil>)"
    using m [of ?n] p6 by simp
  have f1: "has_next_page ?f \<longleftrightarrow> ?rounded n"
    by (simp add: fallback_pagination_def has_next_rounded
        del: fl.simps js_mul.simps js_lt.simps)
  have f2: "n < 2 ^ 32 \<and> has_next_page ?f \<longrightarrow> ?exact n"
    using f1 below [of n] by blast
  have f3: "n < 2 ^ 32 \<and> is_integer (episodes_page q) \<longrightarrow> (has_next_page ?f \<longleftrightarrow> ?exact n)"
    using f1 below [of n] above [of n] by blast
  have "n < 2 ^ 32 \<longrightarrow> last_visible_page ?f
          = Fin (of_int (max 1 \<lceil>(of_nat n :: rat) / of_nat perPage\<rceil>))"
    by (simp add: fallback_pagination_def last_visible_rounded del: Math_ceil.simps fl.simps)
  then have f4: "0 < n \<and> n < 2 ^ 32 \<longrightarrow>
      last_visible_page ?f = Fin (of_int \<lceil>(of_nat n :: rat) / of_nat perPage\<rceil>)"
    using m [of n] by simp
  show ?thesis
    using p1 p2 p3 p4 p5 p6 p7 f1 f2 f3 f4 by (intro conjI)
qed

theorem pagination_fields_witness:
  "last_visible_page (payload_pagination (getEpisodes_payload JUndefined (JNumber (Fin 7))
      [mk_prov ''gogoanime'' [mk_ep 1 ''a1'', mk_ep 2 ''a2''],
       mk_prov ''zoro'' [mk_ep 2 ''b2'', mk_ep 3 ''b3'']])) = Fin 1
 \<and> \<not> has_next_page (payload_pagination (getEpisodes_payload JUndefined (JNumber (Fin 7))
      [mk_prov ''gogoanime'' [mk_ep 1 ''a1'', mk_ep 2 ''a2''],
       mk_prov ''zoro'' [mk_ep 2 ''b2'', mk_ep 3 ''b3'']]))
 \<and> last_visible_page (fallback_pagination (episodes_page JUndefined) 25) = Fin 2
 \<and> has_next_page (fallback_pagination (episodes_page JUndefined) 25)"
  using pagination_fields [of JUndefined "JNumber (Fin 7)"
      "[mk_prov ''gogoanime'' [mk_ep 1 ''a1'', mk_ep 2 ''a2''],
        mk_prov ''zoro'' [mk_ep 2 ''b2'', mk_ep 3 ''b3'']]" 25]
  unfolding ceiling_of_nat_div
  by (simp add: reconcile_example episodes_page_undefined perPage_def round64_24)

text \<open>
  Against claim C7 as stated: with no provider there is no episode, \<open>total\<close> is 0 and
  \<open>ceil(0 / 24)\<close> is 0, but \<open>last_visible_page\<close> is 1.
\<close>

theorem last_visible_page_empty:
  "items_total (payload_pagination (getEpisodes_payload JUndefined (JNumber (Fin 7)) [])) = 0
 \<and> last_visible_page (payload_pagination (getEpisodes_payload JUndefined (JNumber (Fin 7)) [])) = Fin 1
 \<and> \<lceil>(of_nat 0 :: rat) / of_nat perPage\<rceil> = 0"
  by (simp add: getEpisodes_payload_def paginate_def Let_def reconcile_def Array_sort_def
      map_values_def Math_max_def round64_0)

text \<open>
  At a page that is not an integer the rounding shows: the request
  \<open>?page=1.0833333333333333\<close> with 26 episodes has no next page, though 24 times the page
  is below 26.
\<close>

lemma episodes_page_13_12:
  "episodes_page (JString (lit ''1.0833333333333333'')) = Fin (4878899596318037 / 2 ^ 52)"
proof -
  have "StringToNumber (lit ''1.0833333333333333'') = round64 (10833333333333333 / 10 ^ 16)"
    by (simp add: number_parsing_defs)
  with round64_page_13_12 show ?thesis
    by (simp add: episodes_page_def js_or_def num_or_def Math_max_def lit_nonempty)
qed

lemma has_next_page_rounds:
  "(4878899596318037 / 2 ^ 52 :: rat) * of_nat perPage < of_nat 26
 \<and> \<not> has_next_page (payload_pagination
        (paginate (episodes_page (JString (lit ''1.0833333333333333''))) (replicate 26 e)))
 \<and> \<not> has_next_page (fallback_pagination (episodes_page (JString (lit ''1.0833333333333333''))) 26)"
  using round64_page_13_12_times_24
  by (simp add: episodes_page_13_12 paginate_def Let_def fallback_pagination_def perPage_def)


section \<open>Properties of the title normalizer\<close>

lemma shortens_comp: "shortens f \<Longrightarrow> shortens g \<Longrightarrow> shortens (\<lambda>s. g (f s))"
  unfolding shortens_def
proof (intro allI conjI impI)
  fix s
  assume f: "\<forall>s. length (f s) \<le> length s \<and> (length (f s) = length s \<longrightarrow> f s = s)"
    and g: "\<forall>s. length (g s) \<le> length s \<and> (length (g s) = length s \<longrightarrow> g s = s)"
  from f have f1: "length (f s) \<le> length s" by blast
  from g have g1: "length (g (f s)) \<le> length (f s)" by blast
  from f1 g1 show "length (g (f s)) \<le> length s" by simp
  assume eq: "length (g (f s)) = length s"
  with f1 g1 have "length (g (f s)) = length (f s)" and "length (f s) = length s" by simp_all
  with f g show "g (f s) = s" by metis
qed

lemma shortens_dropWhile: "shortens (dropWhile P)"
proof -
  have "length (dropWhile P s) = length s \<Longrightarrow> dropWhile P s = s" for s :: "'a list"
  proof -
    assume a: "length (dropWhile P s) = length s"
    have "length (takeWhile P s) + length (dropWhile P s) = length s"
      by (metis length_append takeWhile_dropWhile_id)
    with a have "takeWhile P s = []" by simp
    then show "dropWhile P s = s"
      by (metis append_Nil takeWhile_dropWhile_id)
  qed
  then show ?thesis
    by (auto simp: shortens_def length_dropWhile_le)
qed

lemma shortens_rev_conj: "shortens f \<Longrightarrow> shortens (\<lambda>s. rev (f (rev s)))"
  unfolding shortens_def
  by (metis length_rev rev_rev_ident)

lemma shortens_trim: "shortens trim"
proof -
  have "shortens (\<lambda>s. rev (dropWhile is_space (rev (dropWhile is_space s))))"
    using shortens_comp [OF shortens_dropWhile shortens_rev_conj [OF shortens_dropWhile]] .
  then show ?thesis
    by (simp add: trim_def [abs_def])
qed

lemma star_ends_ge: "j \<in> set (star_ends n step i) \<Longrightarrow> i \<le> j"
proof (induction n arbitrary: i j)
  case 0
  then show ?case by simp
next
  case (Suc n)
  then show ?case by (fastforce dest: Suc.IH)
qed

lemma match_ends_ge: "j \<in> set (match_ends r s i) \<Longrightarrow> i \<le> j"
proof (induction r arbitrary: i j)
  case (Seq a b)
  then show ?case by (fastforce dest: Seq.IH)
next
  case (Star a)
  then show ?case by (simp add: star_ends_ge)
qed (auto split: if_splits)

lemma first_match_bounds: "first_match r s i n = Some (a, b) \<Longrightarrow> i \<le> a \<and> a \<le> b"
proof (induction n arbitrary: i)
  case 0
  show ?case
  proof (cases "match_ends r s i")
    case Nil
    with 0 show ?thesis by simp
  next
    case (Cons j js)
    with 0 have "a = i" "b = j" by simp_all
    moreover have "i \<le> j" using Cons by (intro match_ends_ge [of j r s i]) simp
    ultimately show ?thesis by simp
  qed
next
  case (Suc n)
  show ?case
  proof (cases "match_ends r s i")
    case Nil
    with Suc.prems have "first_match r s (Suc i) n = Some (a, b)" by simp
    from Suc.IH [OF this] show ?thesis by simp
  next
    case (Cons j js)
    with Suc.prems have "a = i" "b = j" by simp_all
    moreover have "i \<le> j" using Cons by (intro match_ends_ge [of j r s i]) simp
    ultimately show ?thesis by simp
  qed
qed

lemma shortens_cut: "a \<le> b \<Longrightarrow> length (take a s @ drop b s) \<le> length s
    \<and> (length (take a s @ drop b s) = length s \<longrightarrow> take a s @ drop b s = s)"
proof (intro conjI impI)
  assume ab: "a \<le> b"
  then show "length (take a s @ drop b s) \<le> length s" by simp
  assume eq: "length (take a s @ drop b s) = length s"
  show "take a s @ drop b s = s"
  proof (cases "b < length s")
    case True
    with ab eq have "a = b" by simp
    then show ?thesis by simp
  next
    case False
    with ab eq have "length s \<le> a" by simp
    with False show ?thesis by simp
  qed
qed

lemma shortens_replace_first: "shortens (replace_first r)"
  unfolding shortens_def
proof
  fix s
  show "length (replace_first r s) \<le> length s
      \<and> (length (replace_first r s) = length s \<longrightarrow> replace_first r s = s)"
  proof (cases "first_match r s 0 (length s)")
    case None
    then show ?thesis by (simp add: replace_first_def)
  next
    case (Some ab)
    obtain a b where ab: "ab = (a, b)" by (cases ab)
    with Some have "a \<le> b" using first_match_bounds [of r s 0 "length s" a b] by simp
    from shortens_cut [OF this, of s] Some ab show ?thesis
      by (simp add: replace_first_def)
  qed
qed

lemma shortens_normalizeBaseTitle: "shortens normalizeBaseTitle"
proof -
  note step = shortens_comp [OF _ shortens_replace_first]
  have "shortens (\<lambda>s. trim (replace_first trailing_number (replace_first roman_numeral
          (replace_first final_season (replace_first season_n (replace_first nth_season
          (replace_first paren_season (replace_first dash_season (trim s)))))))))"
    by (rule shortens_comp [OF _ shortens_trim]) (rule step shortens_trim)+
  then show ?thesis
    by (simp add: normalizeBaseTitle_def [abs_def] Let_def)
qed

lemma shortens_fixpoint:
  assumes "shortens f"
  shows "length x \<le> n \<Longrightarrow> f ((f ^^ n) x) = (f ^^ n) x"
proof (induction n arbitrary: x)
  case 0
  then have "x = []" by simp
  moreover from assms have "length (f []) \<le> 0" unfolding shortens_def by (metis list.size(3))
  ultimately show ?case by simp
next
  case (Suc n)
  show ?case
  proof (cases "f x = x")
    case True
    then have "(f ^^ k) x = x" for k by (induction k) simp_all
    with True show ?thesis by simp
  next
    case False
    with assms have "length (f x) < length x"
      unfolding shortens_def by (metis le_neq_implies_less)
    with Suc.prems have "length (f x) \<le> n" by simp
    from Suc.IH [OF this] show ?thesis
      by (simp add: funpow_swap1)
  qed
qed

lemmas regex_eval =
  replace_first_def Plus_def fold_case_def is_space_def is_digit_def is_line_terminator_def
  is_word_char_def word_before_def word_at_def trim_def lit_def

lemmas patterns =
  dash_season_def paren_season_def nth_season_def season_n_def final_season_def
  roman_numeral_def trailing_number_def

lemma normalize_A_1_2: "normalizeBaseTitle (lit ''A 1 2'') = lit ''A 1''"
  unfolding normalizeBaseTitle_def Let_def
  by (simp add: regex_eval patterns)

lemma normalize_A_1: "normalizeBaseTitle (lit ''A 1'') = lit ''A''"
  unfolding normalizeBaseTitle_def Let_def
  by (simp add: regex_eval patterns)

lemma normalize_A: "normalizeBaseTitle (lit ''A'') = lit ''A''"
  unfolding normalizeBaseTitle_def Let_def
  by (simp add: regex_eval patterns)

text \<open>The scenario of the specification.\<close>

lemma normalize_final_season:
  "normalizeBaseTitle (lit ''Attack on Titan Final Season Part 2'') = lit ''Attack on Titan''"
  unfolding normalizeBaseTitle_def Let_def
  by (simp add: regex_eval patterns)

text \<open>
  Claim C3, as the code has it. The normalizer is a function on all strings; it maps the
  empty string to itself, never lengthens a title, and returns a title unchanged whenever it
  removes nothing. Applied again and again it reaches a fixed point after at most as many
  applications as the title has code units; one application need not reach it.
\<close>

theorem normalizeBaseTitle_fixed_point:
  "normalizeBaseTitle [] = []
 \<and> length (normalizeBaseTitle x) \<le> length x
 \<and> (length (normalizeBaseTitle x) = length x \<longrightarrow> normalizeBaseTitle x = x)
 \<and> normalizeBaseTitle ((normalizeBaseTitle ^^ length x) x) = (normalizeBaseTitle ^^ length x) x"
proof -
  note s = shortens_normalizeBaseTitle
  have "length (normalizeBaseTitle []) \<le> 0"
    using s unfolding shortens_def by (metis list.size(3))
  moreover have "length (normalizeBaseTitle x) \<le> length x"
    and "length (normalizeBaseTitle x) = length x \<longrightarrow> normalizeBaseTitle x = x"
    using s unfolding shortens_def by blast+
  moreover have "normalizeBaseTitle ((normalizeBaseTitle ^^ length x) x)
                   = (normalizeBaseTitle ^^ length x) x"
    by (rule shortens_fixpoint [OF s]) simp
  ultimately show ?thesis by simp
qed

theorem normalizeBaseTitle_fixed_point_witness:
  "normalizeBaseTitle (lit ''A'') = lit ''A''
 \<and> normalizeBaseTitle (normalizeBaseTitle (lit ''A'')) = normalizeBaseTitle (lit ''A'')"
  using normalizeBaseTitle_fixed_point [of "lit ''A''"]
  by (simp add: normalize_A)

text \<open>
  Against claim C3 as stated: \<open>"A 1 2"\<close> loses its last number only, and the result
  \<open>"A 1"\<close> loses its number when it is normalized again.
\<close>

theorem normalizeBaseTitle_not_idempotent:
  "normalizeBaseTitle (lit ''A 1 2'') = lit ''A 1''
 \<and> normalizeBaseTitle (normalizeBaseTitle (lit ''A 1 2'')) = lit ''A''
 \<and> normalizeBaseTitle (normalizeBaseTitle (lit ''A 1 2'')) \<noteq> normalizeBaseTitle (lit ''A 1 2'')"
  by (simp add: normalize_A_1_2 normalize_A_1 lit_eq_iff)


section \<open>Properties of the handlers of the AniList routes\<close>

lemma gql_cached:
  "getCached cache now key = Some (Some d) \<Longrightarrow> gql cache now now' key up = (Inr (Some d), cache)"
  by (simp add: gql_def)

lemma gql_miss:
  assumes "getCached cache now key = None \<or> getCached cache now key = Some None"
  shows "gql cache now now' key up =
     (case up of
        Rejected e \<Rightarrow> (Inl e, cache)
      | Response st body \<Rightarrow>
          if \<not> is_ok st then (Inl (AniListStatus st), cache)
          else
            (case body of
               Inl e \<Rightarrow> (Inl e, cache)
             | Inr j \<Rightarrow>
                 if body_errors j then (Inl AniListErrors, cache)
                 else (Inr (body_data j), setCached cache now' key (body_data j))))"
  using assms by (auto simp: gql_def)

lemma fetchJson_anify_transport_failure:
  "transport_failure up \<Longrightarrow> fetchJson_anify up = None"
  by (auto simp: transport_failure_def fetchJson_anify_def split: outcome.splits sum.splits)

lemma gql_transport_failure:
  assumes "getCached cache now key = None \<or> getCached cache now key = Some None"
    and "transport_failure up"
  shows "\<exists>err. gql cache now now' key up = (Inl err, cache)"
  using assms(2) unfolding gql_miss [OF assms(1)]
  by (auto simp: transport_failure_def split: outcome.splits sum.splits)

lemma getAniIds_transport_failure:
  assumes "Number_isFinite (StringToNumber idRaw) \<longrightarrow>
      (getCached cache (read_at by_mal) (ByMalQuery, StringToNumber idRaw) = None
        \<or> getCached cache (read_at by_mal) (ByMalQuery, StringToNumber idRaw) = Some None)
    \<and> (getCached cache (read_at by_id) (ByIdQuery, StringToNumber idRaw) = None
        \<or> getCached cache (read_at by_id) (ByIdQuery, StringToNumber idRaw) = Some None)"
    and "transport_failure (upstream by_mal)" and "transport_failure (upstream by_id)"
  shows "getAniIdsByMalOrAni cache idRaw by_mal by_id = (no_ids, cache)"
proof (cases "Number_isFinite (StringToNumber idRaw)")
  case False
  then show ?thesis by (simp add: getAniIdsByMalOrAni_def)
next
  case True
  with assms(1) have m1: "getCached cache (read_at by_mal) (ByMalQuery, StringToNumber idRaw) = None
        \<or> getCached cache (read_at by_mal) (ByMalQuery, StringToNumber idRaw) = Some None"
    and m2: "getCached cache (read_at by_id) (ByIdQuery, StringToNumber idRaw) = None
        \<or> getCached cache (read_at by_id) (ByIdQuery, StringToNumber idRaw) = Some None"
    by simp_all
  from gql_transport_failure [OF m1 assms(2)] obtain e1 where
    g1: "gql cache (read_at by_mal) (write_at by_mal) (ByMalQuery, StringToNumber idRaw)
           (upstream by_mal) = (Inl e1, cache)" ..
  from gql_transport_failure [OF m2 assms(3)] obtain e2 where
    g2: "gql cache (read_at by_id) (write_at by_id) (ByIdQuery, StringToNumber idRaw)
           (upstream by_id) = (Inl e2, cache)" ..
  show ?thesis
    using True by (simp add: getAniIdsByMalOrAni_def g1 g2)
qed

lemma getEpisodes_no_id:
  assumes "getAniIdsByMalOrAni gcache (trim param_id) by_mal by_id = (found, gcache')"
    and "\<not> truthy (media_id found)"
  shows "getEpisodes gcache ecache param_id query_page by_mal by_id anify
           = (\<lparr>answer_status = 200, answer_body = NoEpisodes\<rparr>, gcache', ecache)"
  using assms by (simp add: getEpisodes_def)

lemma cached_episodes_transport_failure:
  assumes "no_data (getCached ecache (read_at anify) key)"
    and "transport_failure (upstream anify)"
  shows "cached_episodes ecache key anify = (None, ecache)"
  using assms by (simp add: cached_episodes_def fetchJson_anify_transport_failure)

lemma getEpisodes_transport_failure:
  assumes "getAniIdsByMalOrAni gcache (trim param_id) by_mal by_id = (found, gcache')"
    and "no_data (getCached ecache (read_at anify) (media_id found))"
    and "transport_failure (upstream anify)"
  shows "getEpisodes gcache ecache param_id query_page by_mal by_id anify
           = (\<lparr>answer_status = 200, answer_body = NoEpisodes\<rparr>, gcache', ecache)"
  using assms(1) cached_episodes_transport_failure [OF assms(2,3)]
  by (simp add: getEpisodes_def)

lemma getEpisodes_status:
  "answer_status (fst (getEpisodes gcache ecache param_id query_page by_mal by_id anify))
     \<in> {200, 500}"
  by (simp add: getEpisodes_def Let_def split: prod.splits option.splits)

lemma getEpisodes_500:
  assumes "getAniIdsByMalOrAni gcache (trim param_id) by_mal by_id = (found, gcache')"
    and "answer_status (fst (getEpisodes gcache ecache param_id query_page by_mal by_id anify)) = 500"
  shows "\<exists>j. fst (cached_episodes ecache (media_id found) anify) = Some j
            \<and> has_null_episode (providers_of j)"
  using assms
  by (auto simp: getEpisodes_def Let_def split: prod.splits option.splits if_splits)

lemma getStreaming_no_id:
  assumes "getAniIdsByMalOrAni gcache (trim param_id) by_mal by_id = (found, gcache')"
    and "\<not> truthy (media_id found)"
  shows "getStreaming gcache param_id query_ep by_mal by_id episodes_up sources_up
           = (\<lparr>answer_status = 200, answer_body = Links []\<rparr>, gcache')"
  using assms by (simp add: getStreaming_def)

lemma getStreaming_transport_failure:
  assumes "getAniIdsByMalOrAni gcache (trim param_id) by_mal by_id = (found, gcache')"
    and "transport_failure episodes_up"
  shows "getStreaming gcache param_id query_ep by_mal by_id episodes_up sources_up
           = (\<lparr>answer_status = 200, answer_body = Links []\<rparr>, gcache')"
  using assms(1) fetchJson_anify_transport_failure [OF assms(2)]
  by (simp add: getStreaming_def no_data_def)

lemma source_links_failure:
  "transport_failure (up k) \<Longrightarrow> source_links name (fetchJson_anify (up k)) = []"
  by (simp add: fetchJson_anify_transport_failure source_links_def)

lemma type_error_eq: "e = TypeError"
  by (cases e) simp

lemma stream_loop_next_provider:
  assumes "transport_failure (up k)"
  shows "stream_loop epNum up k [] (prov # provs) = Inl TypeError
       \<or> stream_loop epNum up k [] (prov # provs) = stream_loop epNum up k [] provs
       \<or> stream_loop epNum up k [] (prov # provs) = stream_loop epNum up (Suc k) [] provs"
  using source_links_failure [of up k, OF assms]
  by (auto simp: Let_def type_error_eq split: sum.splits option.splits)

lemma stream_loop_all_fail:
  assumes "\<And>k. transport_failure (up k)"
  shows "stream_loop epNum up k [] provs = Inl TypeError
       \<or> stream_loop epNum up k [] provs = Inr []"
proof (induction provs arbitrary: k)
  case Nil
  show ?case by simp
next
  case (Cons prov provs)
  from stream_loop_next_provider [of up k epNum prov provs, OF assms]
    Cons [of k] Cons [of "Suc k"]
  show ?case by metis
qed

lemma getStreaming_sources_fail:
  assumes "\<And>k. transport_failure (sources_up k)"
  shows "answer_body (fst (getStreaming gcache param_id query_ep by_mal by_id episodes_up sources_up))
           \<in> {Links [], StreamingFailed}"
proof -
  obtain found gcache' where
    i: "getAniIdsByMalOrAni gcache (trim param_id) by_mal by_id = (found, gcache')"
    by (cases "getAniIdsByMalOrAni gcache (trim param_id) by_mal by_id")
  let ?loop = "stream_loop
      (Math_max (Fin 1) (num_or (ToNumber (js_or query_ep (JNumber (Fin 1)))) (Fin 1)))
      sources_up 0 []
      (Array_sort by_stream_preference
        (case fetchJson_anify episodes_up of Some j \<Rightarrow> providers_of j | None \<Rightarrow> []))"
  from stream_loop_all_fail [of sources_up, OF assms]
  have "?loop = Inl TypeError \<or> ?loop = Inr []" .
  then show ?thesis
    using i by (auto simp: getStreaming_def Let_def)
qed

lemma find_episode_raises:
  "find_episode epNum es = Inl e \<Longrightarrow> list_ex (\<lambda>e. e = None) es"
  by (induction epNum es rule: find_episode.induct) (auto split: if_splits)

lemma stream_loop_raises:
  "stream_loop epNum up k links provs = Inl e \<Longrightarrow> has_null_episode provs"
proof (induction provs arbitrary: k links)
  case Nil
  then show ?case by simp
next
  case (Cons prov provs)
  then show ?case
    by (auto simp: has_null_episode_def Let_def dest: find_episode_raises
        split: if_splits sum.splits option.splits)
qed

lemma has_null_episode_set:
  "set xs = set ys \<Longrightarrow> has_null_episode xs = has_null_episode ys"
  by (simp add: has_null_episode_def list_ex_iff)

lemma getStreaming_500:
  assumes "answer_status (fst (getStreaming gcache param_id query_ep by_mal by_id episodes_up sources_up)) = 500"
  shows "\<exists>j. fetchJson_anify episodes_up = Some j \<and> has_null_episode (providers_of j)"
proof -
  obtain found gcache' where
    i: "getAniIdsByMalOrAni gcache (trim param_id) by_mal by_id = (found, gcache')"
    by (cases "getAniIdsByMalOrAni gcache (trim param_id) by_mal by_id")
  from assms i obtain j e where j: "fetchJson_anify episodes_up = Some j"
    and l: "stream_loop
      (Math_max (Fin 1) (num_or (ToNumber (js_or query_ep (JNumber (Fin 1)))) (Fin 1)))
      sources_up 0 [] (Array_sort by_stream_preference (providers_of j)) = Inl e"
    by (auto simp: getStreaming_def Let_def no_data_def split: if_splits sum.splits option.splits)
  from stream_loop_raises [OF l]
  have "has_null_episode (providers_of j)"
    by (simp add: has_null_episode_set [OF set_Array_sort])
  with j show ?thesis by blast
qed

lemma getStreaming_status:
  "answer_status (fst (getStreaming gcache param_id query_ep by_mal by_id episodes_up sources_up))
     \<in> {200, 500}"
  by (simp add: getStreaming_def Let_def split: prod.splits sum.splits)

lemma getTrending_status:
  "response_status (fst (getTrending cache now now' key up)) \<in> {200, 500}"
  by (cases "gql cache now now' key up") (auto simp: getTrending_def Let_def split: sum.splits)

lemma getTrending_failure:
  assumes "getCached cache now key = None \<or> getCached cache now key = Some None"
    and "transport_failure up"
  shows "\<exists>err. getTrending cache now now' key up
           = (\<lparr>response_status = 500, response_body = ErrorBody err\<rparr>, cache)"
proof -
  from gql_transport_failure [OF assms] obtain err
    where "gql cache now now' key up = (Inl err, cache)" ..
  then show ?thesis by (simp add: getTrending_def)
qed

lemma getTrending_cached:
  "getCached cache now key = Some (Some d) \<Longrightarrow>
     response_status (fst (getTrending cache now now' key up)) = 200"
  by (simp add: getTrending_def gql_cached Let_def)

lemma call_of_simps:
  "read_at (call_of up) = 0" "write_at (call_of up) = 0" "upstream (call_of up) = up"
  by (simp_all add: call_of_def)

lemma trim_3: "trim (lit ''3'') = lit ''3''"
  by (simp add: trim_def lit_def is_space_def)

lemma lookup_fails:
  "getAniIdsByMalOrAni Map.empty (lit ''3'') (call_of (Rejected NetworkError))
     (call_of (Response 503 (Inl SyntaxError))) = (no_ids, Map.empty)"
  by (simp add: getAniIdsByMalOrAni_def StringToNumber_3 gql_def getCached_def call_of_def
      is_ok_def)

lemma lookup_by_id:
  "getAniIdsByMalOrAni Map.empty (lit ''3'') (call_of (Rejected AbortError)) (call_of media_7)
     = (\<lparr>media_id = JNumber (Fin 7), media_idMal = JNumber (Fin 3)\<rparr>,
        setCached Map.empty 0 (ByIdQuery, Fin 3)
          (Some (Some \<lparr>media_id = JNumber (Fin 7), media_idMal = JNumber (Fin 3)\<rparr>)))"
  by (simp add: getAniIdsByMalOrAni_def StringToNumber_3 gql_def getCached_def call_of_def
      is_ok_def media_7_def Let_def)

lemma sorted_streams:
  "Array_sort by_stream_preference
     [mk_stream ''zoro'' [Some (mk_ep 1 ''z1'')], mk_stream ''gogoanime'' [Some (mk_ep 1 ''g1'')]]
   = [mk_stream ''gogoanime'' [Some (mk_ep 1 ''g1'')], mk_stream ''zoro'' [Some (mk_ep 1 ''z1'')]]"
  by (simp add: Array_sort_def by_stream_preference_def indexOf_def preferred_def mk_stream_def
      lit_eq_iff)

lemma stream_loop_fallback:
  "stream_loop (Fin 1) (\<lambda>k. if k = 0 then Rejected AbortError else one_source) 0 []
     [mk_stream ''gogoanime'' [Some (mk_ep 1 ''g1'')], mk_stream ''zoro'' [Some (mk_ep 1 ''z1'')]]
   = Inr [\<lparr>link_name = lit ''zoro'', link_url = JString (lit ''u'')\<rparr>]"
  by (simp add: mk_stream_def mk_ep_def episodes_of_def episode_num_def strict_equals_def
      lit_nonempty fetchJson_anify_def source_links_def one_source_def is_ok_def field_or_def
      Let_def)

lemma stream_loop_no_source:
  "stream_loop (Fin 1) (\<lambda>k. Rejected AbortError) k []
     [mk_stream ''gogoanime'' [Some (mk_ep 1 ''g1'')], mk_stream ''zoro'' [Some (mk_ep 1 ''z1'')]]
   = Inr []"
  by (simp add: mk_stream_def mk_ep_def episodes_of_def episode_num_def strict_equals_def
      lit_nonempty fetchJson_anify_def source_links_def Let_def)

lemma requested_episode_undefined:
  "Math_max (Fin 1) (num_or (ToNumber (js_or JUndefined (JNumber (Fin 1)))) (Fin 1)) = Fin 1"
  by (simp add: js_or_def num_or_def Math_max_def)

text \<open>
  Claim C6, as the code has it in the AniList routes. A transport failure of the request to
  AniList reaches the caller of \<open>getTrending\<close>: when the cache has no usable entry for the
  query, the answer is status 500 with an error body and the cache is left as it was; with
  a fresh entry the answer is 200 whatever the upstream does. \<open>getAniIdsByMalOrAni\<close> drops the
  failures of both its queries and returns no id. \<open>getEpisodes\<close> and \<open>getStreaming\<close> recover
  from every transport failure: with no id they answer 200 with no episodes and no links;
  \<open>getEpisodes\<close> answers 200 with no episodes when it has no cached data and the request to
  Anify fails; \<open>getStreaming\<close> answers 200 with no links when the request for the episodes
  fails, and a provider whose request for sources fails adds no link, the loop going on with
  the next provider, so that there is no link when every such request fails. Status 500 of
  these two handlers comes from a null episode in the data only.
\<close>

theorem transport_failure_handling:
  "response_status (fst (getTrending cache now now' key up)) \<in> {200, 500}
 \<and> ((getCached cache now key = None \<or> getCached cache now key = Some None)
      \<and> transport_failure up \<longrightarrow>
      (\<exists>err. getTrending cache now now' key up
         = (\<lparr>response_status = 500, response_body = ErrorBody err\<rparr>, cache)))
 \<and> ((\<exists>d. getCached cache now key = Some (Some d)) \<longrightarrow>
      response_status (fst (getTrending cache now now' key up)) = 200)
 \<and> ((getCached gcache (read_at by_mal) (ByMalQuery, StringToNumber idRaw) = None
        \<or> getCached gcache (read_at by_mal) (ByMalQuery, StringToNumber idRaw) = Some None)
      \<and> (getCached gcache (read_at by_id) (ByIdQuery, StringToNumber idRaw) = None
        \<or> getCached gcache (read_at by_id) (ByIdQuery, StringToNumber idRaw) = Some None)
      \<and> transport_failure (upstream by_mal) \<and> transport_failure (upstream by_id) \<longrightarrow>
      getAniIdsByMalOrAni gcache idRaw by_mal by_id = (no_ids, gcache))
 \<and> (\<not> truthy (media_id (fst (getAniIdsByMalOrAni gcache (trim param_id) by_mal by_id))) \<longrightarrow>
      getEpisodes gcache ecache param_id q by_mal by_id anify
        = (\<lparr>answer_status = 200, answer_body = NoEpisodes\<rparr>,
           snd (getAniIdsByMalOrAni gcache (trim param_id) by_mal by_id), ecache)
      \<and> getStreaming gcache param_id q by_mal by_id episodes_up sources_up
        = (\<lparr>answer_status = 200, answer_body = Links []\<rparr>,
           snd (getAniIdsByMalOrAni gcache (trim param_id) by_mal by_id)))
 \<and> (no_data (getCached ecache (read_at anify)
        (media_id (fst (getAniIdsByMalOrAni gcache (trim param_id) by_mal by_id))))
      \<and> transport_failure (upstream anify) \<longrightarrow>
      getEpisodes gcache ecache param_id q by_mal by_id anify
        = (\<lparr>answer_status = 200, answer_body = NoEpisodes\<rparr>,
           snd (getAniIdsByMalOrAni gcache (trim param_id) by_mal by_id), ecache))
 \<and> (transport_failure episodes_up \<longrightarrow>
      getStreaming gcache param_id q by_mal by_id episodes_up sources_up
        = (\<lparr>answer_status = 200, answer_body = Links []\<rparr>,
           snd (getAniIdsByMalOrAni gcache (trim param_id) by_mal by_id)))
 \<and> ((\<forall>k. transport_failure (sources_up k)) \<longrightarrow>
      answer_body (fst (getStreaming gcache param_id q by_mal by_id episodes_up sources_up))
        \<in> {Links [], StreamingFailed})
 \<and> (transport_failure (sources_up k) \<longrightarrow>
      stream_loop epNum sources_up k [] (prov # provs) = Inl TypeError
      \<or> stream_loop epNum sources_up k [] (prov # provs)
           = stream_loop epNum sources_up k [] provs
      \<or> stream_loop epNum sources_up k [] (prov # provs)
           = stream_loop epNum sources_up (Suc k) [] provs)
 \<and> answer_status (fst (getEpisodes gcache ecache param_id q by_mal by_id anify)) \<in> {200, 500}
 \<and> (answer_status (fst (getEpisodes gcache ecache param_id q by_mal by_id anify)) = 500 \<longrightarrow>
      (\<exists>j. fst (cached_episodes ecache
                 (media_id (fst (getAniIdsByMalOrAni gcache (trim param_id) by_mal by_id))) anify)
               = Some j
           \<and> has_null_episode (providers_of j)))
 \<and> answer_status (fst (getStreaming gcache param_id q by_mal by_id episodes_up sources_up))
      \<in> {200, 500}
 \<and> (answer_status (fst (getStreaming gcache param_id q by_mal by_id episodes_up sources_up)) = 500
      \<longrightarrow> (\<exists>j. fetchJson_anify episodes_up = Some j \<and> has_null_episode (providers_of j)))"
proof -
  obtain found gcache' where
    i: "getAniIdsByMalOrAni gcache (trim param_id) by_mal by_id = (found, gcache')"
    by (cases "getAniIdsByMalOrAni gcache (trim param_id) by_mal by_id")
  note t1 = getTrending_status [of cache now now' key up]
  have t2: "(getCached cache now key = None \<or> getCached cache now key = Some None)
      \<and> transport_failure up \<longrightarrow>
      (\<exists>err. getTrending cache now now' key up
         = (\<lparr>response_status = 500, response_body = ErrorBody err\<rparr>, cache))"
    by (intro impI getTrending_failure) simp_all
  have t3: "(\<exists>d. getCached cache now key = Some (Some d)) \<longrightarrow>
      response_status (fst (getTrending cache now now' key up)) = 200"
    by (auto simp: getTrending_cached)
  have l: "(getCached gcache (read_at by_mal) (ByMalQuery, StringToNumber idRaw) = None
        \<or> getCached gcache (read_at by_mal) (ByMalQuery, StringToNumber idRaw) = Some None)
      \<and> (getCached gcache (read_at by_id) (ByIdQuery, StringToNumber idRaw) = None
        \<or> getCached gcache (read_at by_id) (ByIdQuery, StringToNumber idRaw) = Some None)
      \<and> transport_failure (upstream by_mal) \<and> transport_failure (upstream by_id) \<longrightarrow>
      getAniIdsByMalOrAni gcache idRaw by_mal by_id = (no_ids, gcache)"
    by (intro impI getAniIds_transport_failure) simp_all
  have e1: "\<not> truthy (media_id (fst (getAniIdsByMalOrAni gcache (trim param_id) by_mal by_id))) \<longrightarrow>
      getEpisodes gcache ecache param_id q by_mal by_id anify
        = (\<lparr>answer_status = 200, answer_body = NoEpisodes\<rparr>,
           snd (getAniIdsByMalOrAni gcache (trim param_id) by_mal by_id), ecache)
      \<and> getStreaming gcache param_id q by_mal by_id episodes_up sources_up
        = (\<lparr>answer_status = 200, answer_body = Links []\<rparr>,
           snd (getAniIdsByMalOrAni gcache (trim param_id) by_mal by_id))"
    using getEpisodes_no_id [OF i] getStreaming_no_id [OF i] by (simp add: i)
  have e2: "no_data (getCached ecache (read_at anify)
        (media_id (fst (getAniIdsByMalOrAni gcache (trim param_id) by_mal by_id))))
      \<and> transport_failure (upstream anify) \<longrightarrow>
      getEpisodes gcache ecache param_id q by_mal by_id anify
        = (\<lparr>answer_status = 200, answer_body = NoEpisodes\<rparr>,
           snd (getAniIdsByMalOrAni gcache (trim param_id) by_mal by_id), ecache)"
    using getEpisodes_transport_failure [OF i] by (simp add: i)
  have s2: "transport_failure episodes_up \<longrightarrow>
      getStreaming gcache param_id q by_mal by_id episodes_up sources_up
        = (\<lparr>answer_status = 200, answer_body = Links []\<rparr>,
           snd (getAniIdsByMalOrAni gcache (trim param_id) by_mal by_id))"
    using getStreaming_transport_failure [OF i] by (simp add: i)
  have s3: "(\<forall>k. transport_failure (sources_up k)) \<longrightarrow>
      answer_body (fst (getStreaming gcache param_id q by_mal by_id episodes_up sources_up))
        \<in> {Links [], StreamingFailed}"
    by (intro impI getStreaming_sources_fail) simp
  have s4: "transport_failure (sources_up k) \<longrightarrow>
      stream_loop epNum sources_up k [] (prov # provs) = Inl TypeError
      \<or> stream_loop epNum sources_up k [] (prov # provs)
           = stream_loop epNum sources_up k [] provs
      \<or> stream_loop epNum sources_up k [] (prov # provs)
           = stream_loop epNum sources_up (Suc k) [] provs"
    by (intro impI stream_loop_next_provider)
  note e3 = getEpisodes_status [of gcache ecache param_id q by_mal by_id anify]
  have e4: "answer_status (fst (getEpisodes gcache ecache param_id q by_mal by_id anify)) = 500 \<longrightarrow>
      (\<exists>j. fst (cached_episodes ecache
                 (media_id (fst (getAniIdsByMalOrAni gcache (trim param_id) by_mal by_id))) anify)
               = Some j
           \<and> has_null_episode (providers_of j))"
    using getEpisodes_500 [OF i] by (simp add: i)
  note s5 = getStreaming_status [of gcache param_id q by_mal by_id episodes_up sources_up]
  have s6: "answer_status (fst (getStreaming gcache param_id q by_mal by_id episodes_up sources_up)) = 500
      \<longrightarrow> (\<exists>j. fetchJson_anify episodes_up = Some j \<and> has_null_episode (providers_of j))"
    by (intro impI getStreaming_500)
  show ?thesis
    using t1 t2 t3 l e1 e2 s2 s3 s4 e3 e4 s5 s6 by (intro conjI)
qed

theorem transport_failure_handling_witness:
  "fst (getTrending (Map.empty :: (string, page_data option) cache) 0 0 ''k''
         (Rejected NetworkError))
     = \<lparr>response_status = 500, response_body = ErrorBody NetworkError\<rparr>
 \<and> response_status (fst (getTrending
      (setCached (Map.empty :: (string, page_data option) cache) 0 ''k'' (Some None)) 1 1 ''k''
      (Rejected NetworkError))) = 200
 \<and> fst (getEpisodes Map.empty Map.empty (lit ''3'') JUndefined
         (call_of (Rejected NetworkError)) (call_of (Response 503 (Inl SyntaxError)))
         (call_of (Rejected NetworkError)))
     = \<lparr>answer_status = 200, answer_body = NoEpisodes\<rparr>
 \<and> fst (getEpisodes Map.empty Map.empty (lit ''3'') JUndefined
         (call_of (Rejected AbortError)) (call_of media_7) (call_of (Rejected NetworkError)))
     = \<lparr>answer_status = 200, answer_body = NoEpisodes\<rparr>
 \<and> fst (getStreaming Map.empty (lit ''3'') JUndefined
         (call_of (Rejected NetworkError)) (call_of (Response 503 (Inl SyntaxError)))
         two_streams (\<lambda>k. Rejected AbortError))
     = \<lparr>answer_status = 200, answer_body = Links []\<rparr>
 \<and> fst (getStreaming Map.empty (lit ''3'') JUndefined
         (call_of (Rejected AbortError)) (call_of media_7)
         (Response 503 (Inl SyntaxError)) (\<lambda>k. Rejected AbortError))
     = \<lparr>answer_status = 200, answer_body = Links []\<rparr>
 \<and> fst (getStreaming Map.empty (lit ''3'') JUndefined
         (call_of (Rejected AbortError)) (call_of media_7)
         two_streams (\<lambda>k. Rejected AbortError))
     = \<lparr>answer_status = 200, answer_body = Links []\<rparr>
 \<and> fst (getStreaming Map.empty (lit ''3'') JUndefined
         (call_of (Rejected AbortError)) (call_of media_7)
         two_streams (\<lambda>k. if k = 0 then Rejected AbortError else one_source))
     = \<lparr>answer_status = 200,
        answer_body = Links [\<lparr>link_name = lit ''zoro'', link_url = JString (lit ''u'')\<rparr>]\<rparr>"
  using transport_failure_handling
      [of "Map.empty :: (string, page_data option) cache" 0 0 "''k''" "Rejected NetworkError"
          Map.empty "call_of (Rejected NetworkError)" "lit ''3''"
          "call_of (Response 503 (Inl SyntaxError))" "lit ''3''"
          Map.empty JUndefined "call_of (Rejected NetworkError)"
          two_streams "\<lambda>k. Rejected AbortError" 0 "Fin 1"
          "mk_stream ''gogoanime'' [Some (mk_ep 1 ''g1'')]"
          "[mk_stream ''zoro'' [Some (mk_ep 1 ''z1'')]]"]
    transport_failure_handling
      [of "setCached (Map.empty :: (string, page_data option) cache) 0 ''k'' (Some None)"
          1 1 "''k''" "Rejected NetworkError"
          Map.empty "call_of (Rejected AbortError)" "lit ''3''"
          "call_of media_7" "lit ''3''"
          Map.empty JUndefined "call_of (Rejected NetworkError)"
          "Response 503 (Inl SyntaxError)" "\<lambda>k. Rejected AbortError" 0 "Fin 1"
          "mk_stream ''gogoanime'' [Some (mk_ep 1 ''g1'')]"
          "[mk_stream ''zoro'' [Some (mk_ep 1 ''z1'')]]"]
  by (simp add: getTrending_def gql_def getCached_def setCached_def TTL_MS_def is_ok_def
      getEpisodes_def getStreaming_def trim_3 lookup_fails lookup_by_id no_ids_def
      cached_episodes_def no_data_def fetchJson_anify_def call_of_simps two_streams_def
      sorted_streams stream_loop_fallback stream_loop_no_source requested_episode_undefined
      transport_failure_def
      del: stream_loop.simps)

text \<open>
  Against claim C6 as stated: with an empty cache, a response 503 from AniList, and a
  network error, each reach the caller of \<open>getTrending\<close> of the AniList routes as status 500
  with an error body instead of an empty result.
\<close>

theorem getTrending_surfaces_failure:
  "fst (getTrending (Map.empty :: (string, page_data option) cache) 0 0 ''k''
         (Response 503 (Inr \<lparr>body_errors = False, body_data = None\<rparr>)))
     = \<lparr>response_status = 500, response_body = ErrorBody (AniListStatus 503)\<rparr>
 \<and> fst (getTrending (Map.empty :: (string, page_data option) cache) 0 0 ''k''
         (Rejected NetworkError))
     = \<lparr>response_status = 500, response_body = ErrorBody NetworkError\<rparr>"
  by (simp add: getTrending_def gql_def getCached_def is_ok_def)

end
